theory Spec2Isabelle
  imports Main "HOL-Library.Word"
begin

section \<open>The virtual file system of the Power Pages web extension\<close>

text \<open>
  A shallow embedding of \<^verbatim>\<open>src/web/client/dal/fileSystemProvider.ts\<close>: the classes
  \<^verbatim>\<open>File\<close>, \<^verbatim>\<open>Directory\<close> and \<^verbatim>\<open>PortalsFS\<close>. Every asynchronous method is
  modelled as a function from the state before the call to its outcome (a thrown error or a
  returned value) and the state after it; calls do not interleave in the model.
\<close>

subsection \<open>Host values: bytes, URIs, file types\<close>

type_synonym byte = "8 word"

text \<open>
  A \<^verbatim>\<open>vscode.Uri\<close> of the provider's scheme. The provider builds its URIs as
  \<^verbatim>\<open>${PORTALS_URI_SCHEME}:/${portalFolderName}/...\<close>: they carry no authority, query or
  fragment, so the model keeps the scheme and the path. JavaScript strings are modelled as
  \<^typ>\<open>string\<close>.
\<close>

record uri =
  scheme :: string
  path :: string

text \<open>\<^verbatim>\<open>uri.with({ path: p })\<close>\<close>

definition uri_with_path :: "uri \<Rightarrow> string \<Rightarrow> uri" where
  "uri_with_path u p = u\<lparr>path := p\<rparr>"

text \<open>\<^verbatim>\<open>vscode.FileType\<close>\<close>

datatype FileType = Unknown | FileType_File | FileType_Directory | SymbolicLink

text \<open>\<^verbatim>\<open>vscode.FileChangeType\<close> and \<^verbatim>\<open>vscode.FileChangeEvent\<close>\<close>

datatype FileChangeType = Changed | Created | Deleted

type_synonym FileChangeEvent = "FileChangeType \<times> uri"

text \<open>
  The errors the provider throws: the \<^verbatim>\<open>vscode.FileSystemError\<close> factories it calls and
  plain \<^verbatim>\<open>Error(message)\<close>.
\<close>

datatype error =
    FileNotFound
  | FileIsADirectory uri
  | FileNotADirectory uri
  | FileExists uri
  | Error string

subsection \<open>JavaScript and Node library functions\<close>

text \<open>
  \<^verbatim>\<open>String.prototype.split("/")\<close>: the pieces between separators, empty pieces kept;
  the empty string splits into one empty piece.
\<close>

fun split :: "char \<Rightarrow> string \<Rightarrow> string list" where
  "split c [] = [[]]"
| "split c (x # xs) =
     (if x = c then [] # split c xs
      else (case split c xs of [] \<Rightarrow> [[x]] | p # ps \<Rightarrow> (x # p) # ps))"

text \<open>
  \<^verbatim>\<open>Map.prototype.get\<close> is \<^const>\<open>map_of\<close> on the association list that keeps the
  insertion order of a JavaScript \<^verbatim>\<open>Map\<close>; \<^verbatim>\<open>Map.prototype.set\<close> replaces the value of
  a present key where it stands and appends an absent key.
\<close>

fun map_set :: "('k \<times> 'v) list \<Rightarrow> 'k \<Rightarrow> 'v \<Rightarrow> ('k \<times> 'v) list" where
  "map_set [] k v = [(k, v)]"
| "map_set ((k', v') # m) k v =
     (if k' = k then (k, v) # m else (k', v') # map_set m k v)"

text \<open>
  \<^verbatim>\<open>path.posix.basename(p)\<close>: scanning from the end, trailing slashes are skipped and the
  characters up to the next slash are returned.
\<close>

definition strip_slashes :: "string \<Rightarrow> string" where
  "strip_slashes p = rev (dropWhile (\<lambda>c. c = CHR ''/'') (rev p))"

definition basename :: "string \<Rightarrow> string" where
  "basename p = rev (takeWhile (\<lambda>c. c \<noteq> CHR ''/'') (rev (strip_slashes p)))"

text \<open>
  \<^verbatim>\<open>path.posix.dirname(p)\<close>: the empty path gives \<^verbatim>\<open>"."\<close>. Otherwise the scan runs
  from the last index down to index 1, skips trailing slashes, then the last segment, and
  stops at the slash before it, at index \<^verbatim>\<open>end\<close>. With no such slash the result is
  \<^verbatim>\<open>"/"\<close> for a rooted path and \<^verbatim>\<open>"."\<close> otherwise; a rooted path with
  \<^verbatim>\<open>end = 1\<close> gives \<^verbatim>\<open>"//"\<close>; else the result is \<^verbatim>\<open>p.slice(0, end)\<close>.
\<close>

definition dirname :: "string \<Rightarrow> string" where
  "dirname p =
     (if p = [] then ''.''
      else
        let hasRoot = (hd p = CHR ''/'');
            scanned = dropWhile (\<lambda>c. c \<noteq> CHR ''/'')
                        (dropWhile (\<lambda>c. c = CHR ''/'') (rev (tl p)));
            end = length scanned
        in if scanned = [] then (if hasRoot then ''/'' else ''.'')
           else if hasRoot \<and> end = 1 then ''//''
           else take end p)"

subsection \<open>Entries\<close>

text \<open>
  The classes \<^verbatim>\<open>File\<close> and \<^verbatim>\<open>Directory\<close>, with the fields in the order of the source:
  \<^verbatim>\<open>type\<close>, \<^verbatim>\<open>ctime\<close>, \<^verbatim>\<open>mtime\<close>, \<^verbatim>\<open>size\<close>, \<^verbatim>\<open>name\<close>, and \<^verbatim>\<open>data\<close> or
  \<^verbatim>\<open>entries\<close>. An entry object is only ever stored in the \<^verbatim>\<open>entries\<close> map of the one
  directory it was created for, so the object graph is a tree and is modelled by value.
\<close>

datatype Entry =
    File (etype: FileType) (ctime: int) (mtime: int) (esize: int) (name: string)
         (data: "byte list")
  | Directory (etype: FileType) (ctime: int) (mtime: int) (esize: int) (name: string)
         (entries: "(string \<times> Entry) list")

text \<open>\<^verbatim>\<open>entry instanceof Directory\<close>, \<^verbatim>\<open>entry instanceof File\<close>\<close>

fun isDirectory :: "Entry \<Rightarrow> bool" where
  "isDirectory (Directory _ _ _ _ _ _) = True"
| "isDirectory (File _ _ _ _ _ _) = False"

fun isFile :: "Entry \<Rightarrow> bool" where
  "isFile (File _ _ _ _ _ _) = True"
| "isFile (Directory _ _ _ _ _ _) = False"

text \<open>The \<^verbatim>\<open>vscode.FileStat\<close> view of an entry: \<^verbatim>\<open>type\<close>, \<^verbatim>\<open>ctime\<close>, \<^verbatim>\<open>mtime\<close>, \<^verbatim>\<open>size\<close>.\<close>

record FileStat =
  stat_type :: FileType
  stat_ctime :: int
  stat_mtime :: int
  stat_size :: int

definition fileStat :: "Entry \<Rightarrow> FileStat" where
  "fileStat e = \<lparr>stat_type = etype e, stat_ctime = ctime e, stat_mtime = mtime e,
                 stat_size = esize e\<rparr>"

subsection \<open>Path lookup\<close>

text \<open>
  The loop of \<^verbatim>\<open>_lookup\<close> over \<^verbatim>\<open>parts\<close>, started at \<^verbatim>\<open>entry = this.root\<close>:
  an empty part is skipped; otherwise \<^verbatim>\<open>child\<close> is looked up in the entries of a
  directory and stays \<^verbatim>\<open>undefined\<close> for a file; a missing child ends the walk
  (\<^const>\<open>None\<close>), a found one becomes \<^verbatim>\<open>entry\<close>.
\<close>

definition child :: "Entry \<Rightarrow> string \<Rightarrow> Entry option" where
  "child entry part = (if isDirectory entry then map_of (entries entry) part else None)"

fun lookup_loop :: "Entry \<Rightarrow> string list \<Rightarrow> Entry option" where
  "lookup_loop entry [] = Some entry"
| "lookup_loop entry (part # parts) =
     (if part = [] then lookup_loop entry parts
      else (case child entry part of
              None \<Rightarrow> None
            | Some c \<Rightarrow> lookup_loop c parts))"

text \<open>
  \<^verbatim>\<open>_lookup(uri, silent)\<close> on the tree rooted at \<^verbatim>\<open>root\<close>: a miss throws
  \<^verbatim>\<open>FileNotFound\<close> unless \<^verbatim>\<open>silent\<close>, when it returns \<^verbatim>\<open>undefined\<close>.
\<close>

definition lookup :: "Entry \<Rightarrow> uri \<Rightarrow> bool \<Rightarrow> error + Entry option" where
  "lookup root u silent =
     (case lookup_loop root (split CHR ''/'' (path u)) of
        None \<Rightarrow> (if \<not> silent then Inl FileNotFound else Inr None)
      | Some entry \<Rightarrow> Inr (Some entry))"

text \<open>\<^verbatim>\<open>_lookupAsDirectory\<close>, \<^verbatim>\<open>_lookupAsFile\<close>, \<^verbatim>\<open>_lookupParentDirectory\<close>\<close>

definition lookupAsDirectory :: "Entry \<Rightarrow> uri \<Rightarrow> bool \<Rightarrow> error + Entry" where
  "lookupAsDirectory root u silent =
     (case lookup root u silent of
        Inl e \<Rightarrow> Inl e
      | Inr (Some entry) \<Rightarrow>
          (if isDirectory entry then Inr entry else Inl (FileNotADirectory u))
      | Inr None \<Rightarrow> Inl (FileNotADirectory u))"

definition lookupAsFile :: "Entry \<Rightarrow> uri \<Rightarrow> bool \<Rightarrow> error + Entry" where
  "lookupAsFile root u silent =
     (case lookup root u silent of
        Inl e \<Rightarrow> Inl e
      | Inr (Some entry) \<Rightarrow>
          (if isFile entry then Inr entry else Inl (FileIsADirectory u))
      | Inr None \<Rightarrow> Inl (FileIsADirectory u))"

definition lookupParentDirectory :: "Entry \<Rightarrow> uri \<Rightarrow> error + Entry" where
  "lookupParentDirectory root u =
     lookupAsDirectory root (uri_with_path u (dirname (path u))) False"

subsection \<open>The extension context and the provider's state\<close>

text \<open>
  \<^verbatim>\<open>FileData\<close> (declared outside the sources at hand): the fields the provider reads, the
  remote identity of a file and its dirty flag.
\<close>

record FileData =
  entityName :: string
  entityId :: string
  hasDirtyChanges :: bool

text \<open>
  Calls to collaborators whose code is outside the provider (telemetry, the editor window
  and workspace, authentication, the HTTP transport), in the order they are issued.
\<close>

datatype Call =
    sendInfoTelemetry string
  | sendErrorTelemetry string
  | sendAPITelemetry string string
  | sendAPISuccessTelemetry string string
  | sendAPIFailureTelemetry string string
  | showErrorDialog string string
  | showErrorMessage string
  | withProgress string
  | updateWorkspaceFolders uri string
  | authenticateAndUpdateDataverseProperties
  | reAuthenticate
  | httpGet string string
  | httpPatch string string uri

text \<open>
  The state the methods read and write: the fields of \<^verbatim>\<open>PortalsFS\<close> (\<^verbatim>\<open>root\<close>,
  \<^verbatim>\<open>_bufferedEvents\<close>, \<^verbatim>\<open>_fireSoonHandle\<close>, and the batches the emitter has fired), the
  number of \<^verbatim>\<open>Date.now()\<close> readings taken so far, the properties of the
  \<^verbatim>\<open>WebExtensionContext\<close> singleton that the provider uses, and the calls issued.
\<close>

record State =
  root :: Entry
  bufferedEvents :: "FileChangeEvent list"
  fireSoonHandle :: bool
  fired :: "FileChangeEvent list list"
  clock :: nat
  isContextSet :: bool
  rootDirectory :: uri
  defaultEntityType :: string
  urlParametersMap :: "(string \<times> string) list"
  fileMap :: "(string \<times> FileData) list"
  dataverseAccessToken :: string
  calls :: "Call list"

text \<open>A decoded record of a fetch response: the folders and the file it maps to.\<close>

record FetchedFile =
  fetched_folders :: "uri list"
  fetched_uri :: uri
  fetched_content :: "byte list"
  fetched_entityId :: string

datatype Response = NotOk string | NullPayload | Records "FetchedFile list"

text \<open>
  What the environment decides: host functions (\<^verbatim>\<open>Date.now\<close>, \<^verbatim>\<open>uri.fsPath\<close>,
  \<^verbatim>\<open>uri.toString\<close>, \<^verbatim>\<open>String.prototype.toLowerCase\<close>, \<^verbatim>\<open>vscode.Uri.parse\<close>),
  utilities of the extension that are outside the sources at hand
  (\<^verbatim>\<open>pathHasEntityFolderName\<close>, \<^verbatim>\<open>getRequestURL\<close>, \<^verbatim>\<open>getEntity\<close>), and the
  answers of the authentication provider and of the remote store.
\<close>

record Env =
  now :: "nat \<Rightarrow> int"
  fsPath :: "uri \<Rightarrow> string"
  toString :: "uri \<Rightarrow> string"
  toLowerCase :: "string \<Rightarrow> string"
  parse :: "string \<Rightarrow> uri"
  pathHasEntityFolderName :: "string \<Rightarrow> bool"
  getRequestURL :: "string option \<Rightarrow> string option \<Rightarrow> string option \<Rightarrow> string \<Rightarrow> bool \<Rightarrow> string"
  getEntity :: "string \<Rightarrow> (string \<times> string) list option"
  authenticated :: "error + string"
  reAuthenticated :: "error + string"
  patchResponse :: "string \<Rightarrow> uri \<Rightarrow> error option"
  entityTypes :: "string list"
  schemaError :: "string \<Rightarrow> string option"
  getResponse :: "string \<Rightarrow> Response"

text \<open>
  Constants declared outside the sources at hand. The scheme is the one the integration
  test expects in file URIs. Of the other constants only the identity matters: the export
  types are given here, and map keys, telemetry event names, error messages and HTTP
  methods are written as their identifiers where they are used.
\<close>

definition PORTALS_URI_SCHEME :: string where
  "PORTALS_URI_SCHEME = ''powerplatform-vfs''"

definition SubFolders :: string where
  "SubFolders = ''SubFolders''"

definition SingleFolder :: string where
  "SingleFolder = ''SingleFolder''"

subsection \<open>Object construction and mutation\<close>

text \<open>
  \<^verbatim>\<open>Date.now()\<close> returns the next reading of the host clock. The constructors read it
  twice, for \<^verbatim>\<open>ctime\<close> and for \<^verbatim>\<open>mtime\<close>.
\<close>

definition Date_now :: "Env \<Rightarrow> State \<Rightarrow> int \<times> State" where
  "Date_now env s = (now env (clock s), s\<lparr>clock := clock s + 1\<rparr>)"

definition new_File :: "Env \<Rightarrow> string \<Rightarrow> State \<Rightarrow> Entry \<times> State" where
  "new_File env nm s =
     (let (c, s1) = Date_now env s; (m, s2) = Date_now env s1
      in (File FileType_File c m 0 nm [], s2))"

definition new_Directory :: "Env \<Rightarrow> string \<Rightarrow> State \<Rightarrow> Entry \<times> State" where
  "new_Directory env nm s =
     (let (c, s1) = Date_now env s; (m, s2) = Date_now env s1
      in (Directory FileType_Directory c m 0 nm [], s2))"

text \<open>Field assignments \<^verbatim>\<open>e.mtime = v\<close>, \<^verbatim>\<open>e.size = v\<close>, \<^verbatim>\<open>e.data = v\<close>, and the
  update of the \<^verbatim>\<open>entries\<close> map of a directory.\<close>

fun set_mtime :: "int \<Rightarrow> Entry \<Rightarrow> Entry" where
  "set_mtime v (File t c m sz n d) = File t c v sz n d"
| "set_mtime v (Directory t c m sz n es) = Directory t c v sz n es"

fun set_size :: "int \<Rightarrow> Entry \<Rightarrow> Entry" where
  "set_size v (File t c m sz n d) = File t c m v n d"
| "set_size v (Directory t c m sz n es) = Directory t c m v n es"

fun set_data :: "byte list \<Rightarrow> Entry \<Rightarrow> Entry" where
  "set_data v (File t c m sz n d) = File t c m sz n v"
| "set_data v (Directory t c m sz n es) = Directory t c m sz n es"

fun entries_set :: "string \<Rightarrow> Entry \<Rightarrow> Entry \<Rightarrow> Entry" where
  "entries_set k v (Directory t c m sz n es) = Directory t c m sz n (map_set es k v)"
| "entries_set k v (File t c m sz n d) = File t c m sz n d"

text \<open>
  A mutation \<open>f\<close> of the object that the walk of \<^const>\<open>lookup_loop\<close> over \<open>parts\<close>
  reaches: in the tree by value, every directory on the way holds the changed child.
\<close>

fun modify_at :: "Entry \<Rightarrow> string list \<Rightarrow> (Entry \<Rightarrow> Entry) \<Rightarrow> Entry" where
  "modify_at entry [] f = f entry"
| "modify_at entry (part # parts) f =
     (if part = [] then modify_at entry parts f
      else (case child entry part of
              None \<Rightarrow> entry
            | Some c \<Rightarrow> entries_set part (modify_at c parts f) entry))"

definition mutate :: "uri \<Rightarrow> (Entry \<Rightarrow> Entry) \<Rightarrow> State \<Rightarrow> State" where
  "mutate u f s = s\<lparr>root := modify_at (root s) (split CHR ''/'' (path u)) f\<rparr>"

subsection \<open>Change events\<close>

text \<open>
  \<^verbatim>\<open>_fireSoon(...events)\<close> buffers the events and (re)arms the 5 ms timer; the timer's
  callback fires the buffer as one batch and empties it.
\<close>

definition fireSoon :: "FileChangeEvent list \<Rightarrow> State \<Rightarrow> State" where
  "fireSoon events s = s\<lparr>bufferedEvents := bufferedEvents s @ events, fireSoonHandle := True\<rparr>"

definition fireSoon_timeout :: "State \<Rightarrow> State" where
  "fireSoon_timeout s = s\<lparr>fired := fired s @ [bufferedEvents s], bufferedEvents := []\<rparr>"

definition call :: "Call \<Rightarrow> State \<Rightarrow> State" where
  "call c s = s\<lparr>calls := calls s @ [c]\<rparr>"

subsection \<open>\<^verbatim>\<open>PortalsFS\<close>: metadata and saving\<close>

text \<open>\<^verbatim>\<open>stat(uri)\<close> returns the entry that \<^verbatim>\<open>_lookup(uri, false)\<close> finds, as a
  \<^verbatim>\<open>vscode.FileStat\<close>. The non-silent lookup never returns \<^verbatim>\<open>undefined\<close>.\<close>

definition stat :: "uri \<Rightarrow> State \<Rightarrow> (error + FileStat) \<times> State" where
  "stat u s =
     (case lookup (root s) u False of
        Inl e \<Rightarrow> (Inl e, s)
      | Inr None \<Rightarrow> (Inl FileNotFound, s)
      | Inr (Some entry) \<Rightarrow> (Inr (fileStat entry), s))"

text \<open>Modelled from the spec: \<^verbatim>\<open>WebExtensionContext.reAuthenticate\<close>, whose class is not
  among the sources. The authentication provider answers with a fresh token, which the
  context keeps, or fails.
\<close>

definition reAuthenticate_context :: "Env \<Rightarrow> State \<Rightarrow> (error + unit) \<times> State" where
  "reAuthenticate_context env s =
     (case reAuthenticated env of
        Inl e \<Rightarrow> (Inl e, call reAuthenticate s)
      | Inr token \<Rightarrow> (Inr (), (call reAuthenticate s)\<lparr>dataverseAccessToken := token\<rparr>))"

text \<open>The dirty flag of the file data registered under a key.\<close>

definition isDirty :: "State \<Rightarrow> string \<Rightarrow> bool" where
  "isDirty s k = (case map_of (fileMap s) k of None \<Rightarrow> False | Some fd \<Rightarrow> hasDirtyChanges fd)"

definition clearDirty :: "string \<Rightarrow> State \<Rightarrow> State" where
  "clearDirty k s =
     s\<lparr>fileMap := map (\<lambda>(k', fd). if k' = k then (k', fd\<lparr>hasDirtyChanges := False\<rparr>) else (k', fd))
                      (fileMap s)\<rparr>"

text \<open>Modelled from the spec: \<^verbatim>\<open>saveData\<close> of the remote save provider
  (\<^verbatim>\<open>remoteSaveProvider.ts\<close> is not among the sources). It submits the PATCH request; on
  success it clears the dirty flag of the file; on failure the error surfaces to the caller
  and the flag stays set.
\<close>

definition saveData :: "Env \<Rightarrow> string \<Rightarrow> string \<Rightarrow> uri \<Rightarrow> State \<Rightarrow> (error + unit) \<times> State" where
  "saveData env accessToken requestUrl fileUri s =
     (let s1 = call (httpPatch accessToken requestUrl fileUri) s
      in case patchResponse env requestUrl fileUri of
           None \<Rightarrow> (Inr (), clearDirty (fsPath env fileUri) s1)
         | Some e \<Rightarrow> (Inl e, s1))"

text \<open>\<^verbatim>\<open>_saveFileToDataverseFromVFS(uri)\<close>: the request URL it builds from the organisation
  URL and from the entity name and the record id of the file data, and the method itself.\<close>

definition patchRequestUrl :: "Env \<Rightarrow> uri \<Rightarrow> State \<Rightarrow> string" where
  "patchRequestUrl env u s =
     (let dataMap = fileMap s;
          dataverseOrgUrl = map_of (urlParametersMap s) ''ORG_URL''
      in getRequestURL env dataverseOrgUrl
           (map_option entityName (map_of dataMap (fsPath env u)))
           (map_option entityId (map_of dataMap (fsPath env u)))
           ''PATCH'' True)"

definition saveFileToDataverseFromVFS :: "Env \<Rightarrow> uri \<Rightarrow> State \<Rightarrow> (error + unit) \<times> State" where
  "saveFileToDataverseFromVFS env u s =
     (case reAuthenticate_context env s of
        (Inl e, s1) \<Rightarrow> (Inl e, s1)
      | (Inr _, s1) \<Rightarrow>
          saveData env (dataverseAccessToken s1) (patchRequestUrl env u s1) u s1)"

subsection \<open>\<^verbatim>\<open>PortalsFS.writeFile\<close>\<close>

record WriteOptions =
  create :: bool
  overwrite :: bool

text \<open>
  The call \<^verbatim>\<open>vscode.window.withProgress(options, task)\<close> of \<^verbatim>\<open>writeFile\<close>: the host shows
  the notification and runs the task, which sends the telemetry event and awaits
  \<^verbatim>\<open>_saveFileToDataverseFromVFS(uri)\<close>; an error of the task is the error of the call.
\<close>

definition saveWithProgress :: "Env \<Rightarrow> uri \<Rightarrow> State \<Rightarrow> (error + unit) \<times> State" where
  "saveWithProgress env u s =
     saveFileToDataverseFromVFS env u
       (call (sendInfoTelemetry ''WEB_EXTENSION_SAVE_FILE_TRIGGERED'')
          (call (withProgress ''Saving your file ...'') s))"

text \<open>
  The first part of \<^verbatim>\<open>writeFile\<close> after the three guards: the entry the assignments
  will go to. An absent entry is created, stored in the parent and announced; a present one
  whose file data is dirty is saved first, under the progress notification.
\<close>

definition writeFile_entry ::
  "Env \<Rightarrow> uri \<Rightarrow> string \<Rightarrow> Entry option \<Rightarrow> State \<Rightarrow> (error + Entry) \<times> State" where
  "writeFile_entry env u bn entry s =
     (case entry of
        None \<Rightarrow>
          (let (entry', s1) = new_File env bn s;
               s2 = mutate (uri_with_path u (dirname (path u))) (entries_set bn entry') s1
           in (Inr entry', fireSoon [(Created, u)] s2))
      | Some entry' \<Rightarrow>
          (if isDirty s (fsPath env u) then
             (case saveWithProgress env u s of
                (Inl e, s1) \<Rightarrow> (Inl e, s1)
              | (Inr _, s1) \<Rightarrow> (Inr entry', s1))
           else (Inr entry', s)))"

text \<open>
  The last part of \<^verbatim>\<open>writeFile\<close>: the three assignments to the entry object, which are
  written back to its place in the parent's map, and the \<^verbatim>\<open>Changed\<close> event.
\<close>

definition writeFile_assign ::
  "Env \<Rightarrow> uri \<Rightarrow> string \<Rightarrow> byte list \<Rightarrow> Entry \<Rightarrow> State \<Rightarrow> State" where
  "writeFile_assign env u bn content entry s =
     (let (t, s1) = Date_now env s;
          written = set_data content (set_size (int (length content)) (set_mtime t entry));
          s2 = mutate (uri_with_path u (dirname (path u))) (entries_set bn written) s1
      in fireSoon [(Changed, u)] s2)"

text \<open>\<^verbatim>\<open>writeFile(uri, content, options)\<close>\<close>

definition writeFile ::
  "Env \<Rightarrow> uri \<Rightarrow> byte list \<Rightarrow> WriteOptions \<Rightarrow> State \<Rightarrow> (error + unit) \<times> State" where
  "writeFile env u content options s =
     (let bn = basename (path u)
      in case lookupParentDirectory (root s) u of
           Inl e \<Rightarrow> (Inl e, s)
         | Inr parent \<Rightarrow>
             (let entry = map_of (entries parent) bn
              in if (case entry of None \<Rightarrow> False | Some e \<Rightarrow> isDirectory e) then
                   (Inl (FileIsADirectory u), s)
                 else if entry = None \<and> \<not> create options then (Inl FileNotFound, s)
                 else if entry \<noteq> None \<and> create options \<and> \<not> overwrite options then
                   (Inl (FileExists u), s)
                 else
                   (case writeFile_entry env u bn entry s of
                      (Inl e, s1) \<Rightarrow> (Inl e, s1)
                    | (Inr entry', s1) \<Rightarrow>
                        (Inr (), writeFile_assign env u bn content entry' s1))))"

subsection \<open>\<^verbatim>\<open>PortalsFS.createDirectory\<close>\<close>

definition createDirectory :: "Env \<Rightarrow> uri \<Rightarrow> State \<Rightarrow> (error + unit) \<times> State" where
  "createDirectory env u s =
     (case lookup (root s) u True of
        Inl e \<Rightarrow> (Inl e, s)
      | Inr (Some entry) \<Rightarrow> (Inr (), s)
      | Inr None \<Rightarrow>
          (let bn = basename (path u);
               dn = uri_with_path u (dirname (path u))
           in case lookupAsDirectory (root s) dn False of
                Inl e \<Rightarrow> (Inl e, s)
              | Inr parent \<Rightarrow>
                  (let (entry, s1) = new_Directory env bn s;
                       (t, s2) = Date_now env s1;
                       s3 = mutate dn
                              (\<lambda>p. set_size (esize p + 1)
                                     (set_mtime t (entries_set (name entry) entry p))) s2
                   in (Inr (), fireSoon [(Changed, dn), (Created, u)] s3))))"

text \<open>\<^verbatim>\<open>rename\<close> and \<^verbatim>\<open>delete\<close>\<close>

definition rename :: "State \<Rightarrow> (error + unit) \<times> State" where
  "rename s = (Inl (Error ''Method not implemented.''), s)"

definition delete :: "State \<Rightarrow> (error + unit) \<times> State" where
  "delete s = (Inl (Error ''Method not implemented.''), s)"

subsection \<open>Loading from the remote store\<close>

text \<open>\<^verbatim>\<open>createEntityFolder(portalFolderName)\<close>. A template literal renders an undefined
  value as \<^verbatim>\<open>"undefined"\<close>.\<close>

definition createEntityFolder :: "Env \<Rightarrow> string \<Rightarrow> State \<Rightarrow> (error + unit) \<times> State" where
  "createEntityFolder env portalFolderName s =
     (let entityDetails = getEntity env (defaultEntityType s);
          exportType = (case entityDetails of None \<Rightarrow> None | Some m \<Rightarrow> map_of m ''EXPORT_TYPE'');
          subUri = (case entityDetails of None \<Rightarrow> None | Some m \<Rightarrow> map_of m ''FILE_FOLDER_NAME'')
      in if subUri = Some [] then (Inl (Error ''SUBURI_EMPTY''), s)
         else
           (let s1 = call (sendInfoTelemetry ''WEB_EXTENSION_CREATE_ENTITY_FOLDER'') s
            in if exportType \<noteq> None \<and> exportType \<noteq> Some [] \<and>
                  (exportType = Some SubFolders \<or> exportType = Some SingleFolder)
               then
                 createDirectory env
                   (parse env (PORTALS_URI_SCHEME @ '':/'' @ portalFolderName @ ''/'' @
                               (case subUri of None \<Rightarrow> ''undefined'' | Some x \<Rightarrow> x) @ ''/'')) s1
               else (Inr (), s1)))"

text \<open>\<^verbatim>\<open>createFileSystem(portalFolderName)\<close>. The argument is read from a map and cast, so it
  may be undefined; reading \<^verbatim>\<open>length\<close> of it then throws a \<^verbatim>\<open>TypeError\<close>.\<close>

definition createFileSystem :: "Env \<Rightarrow> string option \<Rightarrow> State \<Rightarrow> (error + unit) \<times> State" where
  "createFileSystem env portalFolderName' s =
     (case portalFolderName' of
        None \<Rightarrow> (Inl (Error ''TypeError''), s)
      | Some portalFolderName \<Rightarrow>
          (if length portalFolderName = 0 then
             (Inl (Error ''PORTAL_FOLDER_NAME_EMPTY''),
              call (sendErrorTelemetry ''WEB_EXTENSION_EMPTY_PORTAL_FOLDER_NAME'') s)
           else
             (case createDirectory env
                     (parse env (PORTALS_URI_SCHEME @ '':/'' @ portalFolderName @ ''/''))
                     (call (sendInfoTelemetry ''WEB_EXTENSION_CREATE_ROOT_FOLDER'') s) of
                (Inl e, s1) \<Rightarrow> (Inl e, s1)
              | (Inr _, s1) \<Rightarrow>
                  createEntityFolder env portalFolderName
                    (call (updateWorkspaceFolders
                             (parse env (PORTALS_URI_SCHEME @ '':/'' @ portalFolderName @ ''/''))
                             portalFolderName) s1))))"

text \<open>Modelled from the spec: \<^verbatim>\<open>WebExtensionContext.authenticateAndUpdateDataverseProperties\<close>,
  whose class is not among the sources. The authentication provider answers with a token,
  which the context keeps, or fails.
\<close>

definition authenticate_context :: "Env \<Rightarrow> State \<Rightarrow> (error + unit) \<times> State" where
  "authenticate_context env s =
     (case authenticated env of
        Inl e \<Rightarrow> (Inl e, call authenticateAndUpdateDataverseProperties s)
      | Inr token \<Rightarrow>
          (Inr (), (call authenticateAndUpdateDataverseProperties s)\<lparr>dataverseAccessToken := token\<rparr>))"

text \<open>Modelled from the spec: the materialisation of one fetched record by the remote fetch
  provider (\<^verbatim>\<open>remoteFetchProvider.ts\<close> is not among the sources). The entity subfolders are
  created if absent, the file is written with create and overwrite, and its file data is
  registered with the entity name, the record id and a clear dirty flag.
\<close>

fun createDirectories :: "Env \<Rightarrow> uri list \<Rightarrow> State \<Rightarrow> (error + unit) \<times> State" where
  "createDirectories env [] s = (Inr (), s)"
| "createDirectories env (d # ds) s =
     (case createDirectory env d s of
        (Inl e, s1) \<Rightarrow> (Inl e, s1)
      | (Inr _, s1) \<Rightarrow> createDirectories env ds s1)"

definition createContentFiles :: "Env \<Rightarrow> string \<Rightarrow> FetchedFile \<Rightarrow> State \<Rightarrow> (error + unit) \<times> State" where
  "createContentFiles env entity r s =
     (case createDirectories env (fetched_folders r) s of
        (Inl e, s1) \<Rightarrow> (Inl e, s1)
      | (Inr _, s1) \<Rightarrow>
          (case writeFile env (fetched_uri r) (fetched_content r)
                  \<lparr>create = True, overwrite = True\<rparr>
                  (call (sendInfoTelemetry ''per-record write'') s1) of
             (Inl e, s2) \<Rightarrow> (Inl e, s2)
           | (Inr _, s2) \<Rightarrow>
               (Inr (),
                s2\<lparr>fileMap := map_set (fileMap s2) (fsPath env (fetched_uri r))
                     \<lparr>entityName = entity, entityId = fetched_entityId r,
                      hasDirtyChanges = False\<rparr>\<rparr>)))"

fun createAllContentFiles ::
  "Env \<Rightarrow> string \<Rightarrow> FetchedFile list \<Rightarrow> State \<Rightarrow> (error + unit) \<times> State" where
  "createAllContentFiles env entity [] s = (Inr (), s)"
| "createAllContentFiles env entity (r # rs) s =
     (case createContentFiles env entity r s of
        (Inl e, s1) \<Rightarrow> (Inl e, s1)
      | (Inr _, s1) \<Rightarrow> createAllContentFiles env entity rs s1)"

text \<open>Modelled from the spec: the pass of \<^verbatim>\<open>fetchDataFromDataverseAndUpdateVFS\<close> over one
  entity type. An incomplete schema entry, a response that is not ok, a null payload and a
  failure while the records are materialised are each caught for this entity type: the
  user sees the error dialog and a failure telemetry event is recorded. The numbers of
  calls in the two response failures are those the integration test asserts: one dialog;
  one failure event for a null payload; two failure events and the notification
  \<^verbatim>\<open>"Failed to fetch file content."\<close> for a response that is not ok.
\<close>

definition errorDialog :: Call where
  "errorDialog = showErrorDialog ''There was a problem opening the workspace''
                   ''We encountered an error preparing the file for edit.''"

definition fetchEntity :: "Env \<Rightarrow> string \<Rightarrow> State \<Rightarrow> State" where
  "fetchEntity env entity s =
     (case schemaError env entity of
        Some msg \<Rightarrow> call errorDialog (call (sendErrorTelemetry msg) s)
      | None \<Rightarrow>
          (let requestUrl = getRequestURL env (map_of (urlParametersMap s) ''ORG_URL'')
                              (Some entity) None ''GET'' False;
               s1 = call (httpGet (dataverseAccessToken s) requestUrl)
                      (call (sendAPITelemetry requestUrl entity) s)
           in case getResponse env entity of
                NotOk statusText \<Rightarrow>
                  call (sendAPIFailureTelemetry requestUrl entity)
                    (call (showErrorMessage ''Failed to fetch file content.'')
                      (call (sendAPIFailureTelemetry requestUrl entity)
                        (call errorDialog s1)))
              | NullPayload \<Rightarrow>
                  call (sendAPIFailureTelemetry requestUrl entity) (call errorDialog s1)
              | Records rs \<Rightarrow>
                  (case createAllContentFiles env entity rs
                          (call (sendAPISuccessTelemetry requestUrl entity) s1) of
                     (Inl e, s2) \<Rightarrow>
                       call (sendAPIFailureTelemetry requestUrl entity) (call errorDialog s2)
                   | (Inr _, s2) \<Rightarrow> s2)))"

text \<open>Modelled from the spec: \<^verbatim>\<open>fetchDataFromDataverseAndUpdateVFS\<close>. The entity types are
  processed in the declared order; no failure of one of them propagates, and the call
  resolves.
\<close>

fun fetchEntities :: "Env \<Rightarrow> string list \<Rightarrow> State \<Rightarrow> State" where
  "fetchEntities env [] s = s"
| "fetchEntities env (entity # rest) s = fetchEntities env rest (fetchEntity env entity s)"

definition fetchDataFromDataverseAndUpdateVFS :: "Env \<Rightarrow> State \<Rightarrow> (error + unit) \<times> State" where
  "fetchDataFromDataverseAndUpdateVFS env s =
     (Inr (), fetchEntities env (entityTypes env)
                (call (sendInfoTelemetry ''trigger'') s))"

text \<open>\<^verbatim>\<open>_loadFromDataverseToVFS()\<close>\<close>

definition loadFromDataverseToVFS :: "Env \<Rightarrow> State \<Rightarrow> (error + unit) \<times> State" where
  "loadFromDataverseToVFS env s =
     (case authenticate_context env s of
        (Inl e, s1) \<Rightarrow> (Inl e, s1)
      | (Inr _, s1) \<Rightarrow>
          (case createFileSystem env (map_of (urlParametersMap s1) ''WEBSITE_NAME'') s1 of
             (Inl e, s2) \<Rightarrow> (Inl e, s2)
           | (Inr _, s2) \<Rightarrow> fetchDataFromDataverseAndUpdateVFS env s2))"

subsection \<open>\<^verbatim>\<open>PortalsFS.readDirectory\<close> and \<^verbatim>\<open>PortalsFS.readFile\<close>\<close>

text \<open>\<^verbatim>\<open>String.prototype.includes\<close>\<close>

fun string_includes :: "string \<Rightarrow> string \<Rightarrow> bool" where
  "string_includes [] n = (n = [])"
| "string_includes (x # xs) n = (take (length n) (x # xs) = n \<or> string_includes xs n)"

text \<open>
  \<^verbatim>\<open>readDirectory(uri)\<close>. The \<^verbatim>\<open>catch\<close> block looks at a \<^verbatim>\<open>FileNotFound\<close> error only;
  an error thrown inside it leaves the method. After the block the method returns
  \<^verbatim>\<open>result\<close>, which the \<^verbatim>\<open>try\<close> block fills.
\<close>

definition readDirectory ::
  "Env \<Rightarrow> uri \<Rightarrow> State \<Rightarrow> (error + (string \<times> FileType) list) \<times> State" where
  "readDirectory env u s =
     (let result = []
      in case lookupAsDirectory (root s) u False of
           Inr entry \<Rightarrow>
             (Inr (result @ map (\<lambda>(name, c). (name, etype c)) (entries entry)), s)
         | Inl error \<Rightarrow>
             (if error = FileNotFound then
                (if isContextSet s \<and>
                    toLowerCase env (toString env u) =
                      toLowerCase env (toString env (rootDirectory s))
                 then
                   (case loadFromDataverseToVFS env
                           (call (sendInfoTelemetry ''WEB_EXTENSION_FETCH_DIRECTORY_TRIGGERED'') s) of
                      (Inl e, s1) \<Rightarrow> (Inl e, s1)
                    | (Inr _, s1) \<Rightarrow> (Inr result, s1))
                 else (Inr result, s))
              else (Inr result, s)))"

text \<open>\<^verbatim>\<open>readFile(uri)\<close>\<close>

definition readFile :: "Env \<Rightarrow> uri \<Rightarrow> State \<Rightarrow> (error + byte list) \<times> State" where
  "readFile env u s =
     (case lookupAsFile (root s) u False of
        Inr file \<Rightarrow> (Inr (data file), s)
      | Inl error \<Rightarrow>
          (if error = FileNotFound then
             (if isContextSet s \<and> string_includes (toString env u) (toString env (rootDirectory s)) then
                (if pathHasEntityFolderName env (toString env u) then
                   (case loadFromDataverseToVFS env
                           (call (sendInfoTelemetry ''WEB_EXTENSION_FETCH_FILE_TRIGGERED'') s) of
                      (Inl e, s1) \<Rightarrow> (Inl e, s1)
                    | (Inr _, s1) \<Rightarrow>
                        (case lookupAsFile (root s1) u False of
                           Inl e \<Rightarrow> (Inl e, s1)
                         | Inr file \<Rightarrow> (Inr (data file), s1)))
                 else (Inr [], s))
              else (Inr [], s))
           else (Inr [], s)))"

section \<open>The specification's notions\<close>

text \<open>
  The path lookup as the specification words it: the path is split on \<^verbatim>\<open>"/"\<close>, empty
  segments are dropped, and the child maps are walked from the root.
\<close>

definition segments :: "string \<Rightarrow> string list" where
  "segments p = filter (\<lambda>part. part \<noteq> []) (split CHR ''/'' p)"

fun walk :: "Entry \<Rightarrow> string list \<Rightarrow> Entry option" where
  "walk entry [] = Some entry"
| "walk entry (seg # segs) =
     (case child entry seg of None \<Rightarrow> None | Some c \<Rightarrow> walk c segs)"

definition lookup_spec :: "Entry \<Rightarrow> uri \<Rightarrow> bool \<Rightarrow> error + Entry option" where
  "lookup_spec r u silent =
     (case walk r (segments (path u)) of
        Some entry \<Rightarrow> Inr (Some entry)
      | None \<Rightarrow> (if silent then Inr None else Inl FileNotFound))"

text \<open>
  A bare relative name: a path of one segment with no slash before it, such as
  \<^verbatim>\<open>"a"\<close> or \<^verbatim>\<open>"a/"\<close>. For these paths \<^verbatim>\<open>path.posix.dirname\<close> answers \<^verbatim>\<open>"."\<close>, which the
  lookup takes for the name of a child of the root.
\<close>

definition bare_name :: "string \<Rightarrow> bool" where
  "bare_name p \<longleftrightarrow> strip_slashes p \<noteq> [] \<and> CHR ''/'' \<notin> set (strip_slashes p)"

text \<open>
  The number of loads started so far: \<^verbatim>\<open>_loadFromDataverseToVFS\<close> begins with one call of
  \<^verbatim>\<open>authenticateAndUpdateDataverseProperties\<close>, and nothing else calls it.
\<close>

definition loads :: "State \<Rightarrow> nat" where
  "loads s = length (filter (\<lambda>c. c = authenticateAndUpdateDataverseProperties) (calls s))"

section \<open>Example states\<close>

text \<open>
  A site with one entity folder and one fetched file whose file data is dirty, served by an
  environment in which authentication and the remote store answer with success.
\<close>

definition vfs_uri :: "string \<Rightarrow> uri" where
  "vfs_uri p = \<lparr>scheme = PORTALS_URI_SCHEME, path = p\<rparr>"

definition file_b :: Entry where
  "file_b = File FileType_File 10 20 3 ''b'' [1, 2, 3]"

definition dir_pages :: Entry where
  "dir_pages = Directory FileType_Directory 5 6 1 ''web-pages'' [(''b'', file_b)]"

definition dir_site :: Entry where
  "dir_site = Directory FileType_Directory 3 4 1 ''site'' [(''web-pages'', dir_pages)]"

definition root1 :: Entry where
  "root1 = Directory FileType_Directory 0 0 1 [] [(''site'', dir_site)]"

definition env1 :: Env where
  "env1 = \<lparr>now = (\<lambda>k. 1000 + int k),
           fsPath = path,
           toString = (\<lambda>u. scheme u @ '':'' @ path u),
           toLowerCase = (\<lambda>str. str),
           parse = (\<lambda>str. \<lparr>scheme = take 17 str, path = drop 18 str\<rparr>),
           pathHasEntityFolderName = (\<lambda>str. string_includes str ''/web-pages/''),
           getRequestURL = (\<lambda>orgUrl entity ident method single. ''https://org/api''),
           getEntity = (\<lambda>entity. Some [(''EXPORT_TYPE'', SubFolders),
                                         (''FILE_FOLDER_NAME'', ''web-pages'')]),
           authenticated = Inr ''token'',
           reAuthenticated = Inr ''fresh token'',
           patchResponse = (\<lambda>requestUrl fileUri. None),
           entityTypes = [],
           schemaError = (\<lambda>entity. None),
           getResponse = (\<lambda>entity. NullPayload)\<rparr>"

definition state1 :: State where
  "state1 = \<lparr>root = root1, bufferedEvents = [], fireSoonHandle = False, fired = [],
             clock = 0, isContextSet = True, rootDirectory = vfs_uri ''/site'',
             defaultEntityType = ''webpages'',
             urlParametersMap = [(''WEBSITE_NAME'', ''site''), (''ORG_URL'', ''https://org'')],
             fileMap = [(''/site/web-pages/b'',
                         \<lparr>entityName = ''webpages'', entityId = ''id-b'',
                          hasDirtyChanges = True\<rparr>)],
             dataverseAccessToken = [], calls = []\<rparr>"

text \<open>The provider as constructed, before any call: \<^verbatim>\<open>root = new Directory("")\<close>.\<close>

definition state0 :: State where
  "state0 = \<lparr>root = Directory FileType_Directory 0 0 0 [] [], bufferedEvents = [],
             fireSoonHandle = False, fired = [], clock = 0, isContextSet = True,
             rootDirectory = vfs_uri ''/site'', defaultEntityType = ''webpages'',
             urlParametersMap = [(''WEBSITE_NAME'', ''site''), (''ORG_URL'', ''https://org'')],
             fileMap = [], dataverseAccessToken = [], calls = []\<rparr>"



text \<open>An environment in which the remote store rejects every PATCH request.\<close>

definition env_fail :: Env where
  "env_fail = env1\<lparr>patchResponse := (\<lambda>requestUrl fileUri. Some (Error ''Bad Request''))\<rparr>"

text \<open>An environment in which the remote store holds one record of the entity type
  \<^verbatim>\<open>webpages\<close>, which maps to the file \<^verbatim>\<open>/site/web-pages/x\<close>.\<close>

definition env2 :: Env where
  "env2 = env1\<lparr>entityTypes := [''webpages''],
               getResponse := (\<lambda>entity. Records
                 [\<lparr>fetched_folders = [vfs_uri ''/site/web-pages''],
                   fetched_uri = vfs_uri ''/site/web-pages/x'',
                   fetched_content = [1, 2],
                   fetched_entityId = ''id-x''\<rparr>])\<rparr>"

text \<open>An environment with three entity types: the request for the first is answered with a
  status that is not ok, the one for the second with a null payload, the one for the third
  with the record of \<^const>\<open>env2\<close>.\<close>

definition env3 :: Env where
  "env3 = env2\<lparr>entityTypes := [''contentsnippet'', ''webfiles'', ''webpages''],
               getResponse := (\<lambda>entity.
                 if entity = ''contentsnippet'' then NotOk ''Bad Gateway''
                 else if entity = ''webfiles'' then NullPayload
                 else getResponse env2 entity)\<rparr>"

section \<open>Properties\<close>

subsection \<open>Splitting paths\<close>

lemma split_ne: "split c xs \<noteq> []"
  by (induction xs) (auto split: list.splits)

lemma split_append: "split c (xs @ c # ys) = split c xs @ split c ys"
  by (induction xs) (auto simp: split_ne split: list.splits)

lemma split_noslash: "c \<notin> set xs \<Longrightarrow> split c xs = [xs]"
  by (induction xs) (auto split: list.splits)

lemma segments_append: "segments (xs @ CHR ''/'' # ys) = segments xs @ segments ys"
  by (simp add: segments_def split_append)

lemma segments_noslash: "CHR ''/'' \<notin> set b \<Longrightarrow> segments b = (if b = [] then [] else [b])"
  by (simp add: segments_def split_noslash)

lemma segments_slashes: "set t \<subseteq> {CHR ''/''} \<Longrightarrow> segments t = []"
proof (induction t)
  case Nil show ?case by (simp add: segments_def)
next
  case (Cons a t)
  then have "a = CHR ''/''" by simp
  then have "segments (a # t) = segments [] @ segments t"
    using segments_append[of "[]" t] by simp
  with Cons show ?case by (simp add: segments_def)
qed

lemma segments_trailing: "set t \<subseteq> {CHR ''/''} \<Longrightarrow> segments (xs @ t) = segments xs"
proof (cases t)
  case Nil then show ?thesis by simp
next
  case (Cons a t')
  assume "set t \<subseteq> {CHR ''/''}"
  with Cons have a: "a = CHR ''/''" and t': "set t' \<subseteq> {CHR ''/''}" by auto
  show ?thesis unfolding Cons a using segments_append[of xs t'] segments_slashes[OF t'] by simp
qed

lemma lookup_loop_walk: "lookup_loop e ps = walk e (filter (\<lambda>p. p \<noteq> []) ps)"
  by (induction ps arbitrary: e) (auto split: option.splits)

lemma walk_append: "walk e (ps @ qs) = (case walk e ps of None \<Rightarrow> None | Some d \<Rightarrow> walk d qs)"
  by (induction ps arbitrary: e) (auto split: option.splits)

lemma takeWhile_stop: "c \<notin> set xs \<Longrightarrow> takeWhile (\<lambda>a. a \<noteq> c) (xs @ c # ys) = xs"
  by (induction xs) auto

lemma path_decomposition:
  assumes seg: "segments p \<noteq> []" and nb: "\<not> bare_name p"
  shows "segments (dirname p) @ [basename p] = segments p"
proof -
  let ?sl = "\<lambda>c. c = CHR ''/''"
  let ?ns = "\<lambda>c. c \<noteq> CHR ''/''"
  from seg have pne: "p \<noteq> []" by (auto simp: segments_def)
  then obtain x p' where p: "p = x # p'" by (cases p) auto
  define t1 where "t1 = takeWhile ?sl (rev p')"
  define r1 where "r1 = dropWhile ?sl (rev p')"
  define b1 where "b1 = takeWhile ?ns r1"
  define sc where "sc = dropWhile ?ns r1"
  have rp': "rev p' = t1 @ b1 @ sc" by (simp add: t1_def r1_def b1_def sc_def)
  have p'eq: "p' = rev sc @ rev b1 @ rev t1"
    using arg_cong[OF rp', of rev] by simp
  have t1s: "set t1 \<subseteq> {CHR ''/''}" unfolding t1_def by (auto dest: set_takeWhileD)
  have b1n: "CHR ''/'' \<notin> set b1" unfolding b1_def by (auto dest: set_takeWhileD)
  have r1hd: "r1 = [] \<or> hd r1 \<noteq> CHR ''/''" unfolding r1_def
    using hd_dropWhile[of ?sl "rev p'"] by auto
  have schd: "sc = [] \<or> hd sc = CHR ''/''" unfolding sc_def
    using hd_dropWhile[of ?ns r1] by auto
  have r1eq: "r1 = b1 @ sc" by (simp add: b1_def sc_def)
  have b1sc: "b1 = [] \<Longrightarrow> sc = []" using r1hd schd r1eq by auto
  have sc_eq: "dropWhile ?ns (dropWhile ?sl (rev (tl p))) = sc"
    by (simp add: p sc_def r1_def)
  have dn: "dirname p = (if sc = [] then (if x = CHR ''/'' then ''/'' else ''.'')
                        else if x = CHR ''/'' \<and> length sc = 1 then ''//'' else take (length sc) p)"
    unfolding dirname_def Let_def sc_eq using p by simp
  have tailseg: "segments (rev b1 @ rev t1) = (if b1 = [] then [] else [rev b1])"
    using segments_trailing[of "rev t1" "rev b1"] t1s b1n segments_noslash[of "rev b1"] by simp
  have rp: "rev p = t1 @ (b1 @ sc @ [x])" using rp' p by simp
  have strip: "b1 \<noteq> [] \<Longrightarrow> dropWhile ?sl (rev p) = b1 @ sc @ [x]"
  proof -
    assume ne: "b1 \<noteq> []"
    obtain y b' where b1c: "b1 = y # b'" using ne by (cases b1) auto
    have yn: "y \<noteq> CHR ''/''" using b1n b1c by auto
    have "dropWhile ?sl (rev p) = dropWhile ?sl (b1 @ sc @ [x])"
      unfolding rp using t1s by (simp add: dropWhile_append2 subset_iff)
    then show ?thesis using b1c yn by simp
  qed
  show ?thesis
  proof (cases sc)
    case (Cons z sc')
    with schd have z: "z = CHR ''/''" by simp
    have ne: "b1 \<noteq> []" using b1sc Cons by auto
    have tw: "takeWhile ?ns (b1 @ sc @ [x]) = b1"
      using Cons z b1n by (simp add: takeWhile_stop)
    have bn: "basename p = rev b1"
      unfolding basename_def strip_slashes_def by (simp add: strip[OF ne] tw)
    have peq: "p = (x # rev sc') @ CHR ''/'' # (rev b1 @ rev t1)"
      using p p'eq Cons z by simp
    have segp: "segments p = segments (x # rev sc') @ [rev b1]"
      using segments_append[of "x # rev sc'" "rev b1 @ rev t1"] tailseg ne peq by simp
    have "segments (dirname p) = segments (x # rev sc')"
    proof (cases "x = CHR ''/'' \<and> length sc = 1")
      case True
      then have "sc' = []" using Cons by simp
      moreover have "segments ''//'' = []" by (simp add: segments_def)
      moreover have "segments ''/'' = []" by (simp add: segments_def)
      ultimately show ?thesis using dn True Cons by simp
    next
      case False
      have "take (length sc) p = x # rev sc'" using peq Cons by simp
      then show ?thesis using dn False Cons by auto
    qed
    with segp bn show ?thesis by simp
  next
    case Nil
    have p2: "p = x # rev b1 @ rev t1" using p p'eq Nil by simp
    show ?thesis
    proof (cases "x = CHR ''/''")
      case True
      have "segments p = segments [] @ segments (rev b1 @ rev t1)"
        using segments_append[of "[]" "rev b1 @ rev t1"] p2 True by simp
      then have sp: "segments p = (if b1 = [] then [] else [rev b1])"
        using tailseg by (simp add: segments_def)
      with seg have ne: "b1 \<noteq> []" by auto
      have tw: "takeWhile ?ns (b1 @ sc @ [x]) = b1"
        using Nil True b1n by (simp add: takeWhile_stop)
      have bn: "basename p = rev b1"
        unfolding basename_def strip_slashes_def by (simp add: strip[OF ne] tw)
      have "segments ''/'' = []" by (simp add: segments_def)
      then show ?thesis using dn Nil True sp ne bn by simp
    next
      case False
      have "dropWhile ?sl (rev p) = rev (x # rev b1)"
        unfolding rp Nil using t1s False b1n
        by (cases b1) (auto simp: dropWhile_append2 subset_iff)
      then have "strip_slashes p = x # rev b1" by (simp add: strip_slashes_def)
      then have "bare_name p" using False b1n by (simp add: bare_name_def)
      with nb show ?thesis by simp
    qed
  qed
qed

lemma strip_slashes_prefix: "\<exists>t. p = strip_slashes p @ t"
proof -
  have "rev p = takeWhile (\<lambda>c. c = CHR ''/'') (rev p) @ dropWhile (\<lambda>c. c = CHR ''/'') (rev p)"
    by simp
  then have "p = rev (dropWhile (\<lambda>c. c = CHR ''/'') (rev p)) @ rev (takeWhile (\<lambda>c. c = CHR ''/'') (rev p))"
    by (metis rev_append rev_rev_ident)
  then show ?thesis unfolding strip_slashes_def by blast
qed

lemma absolute_not_bare: "p \<noteq> [] \<Longrightarrow> hd p = CHR ''/'' \<Longrightarrow> \<not> bare_name p"
proof
  assume p: "p \<noteq> []" and h: "hd p = CHR ''/''" and b: "bare_name p"
  obtain t where t: "p = strip_slashes p @ t" using strip_slashes_prefix by blast
  from b have ne: "strip_slashes p \<noteq> []" and ns: "CHR ''/'' \<notin> set (strip_slashes p)"
    by (simp_all add: bare_name_def)
  from t ne have "hd p = hd (strip_slashes p)" by (metis hd_append2)
  with h ne ns show False by (metis list.set_sel(1))
qed

subsection \<open>Path lookup\<close>

lemma lookup_eq_spec: "lookup r u silent = lookup_spec r u silent"
  by (auto simp: lookup_def lookup_spec_def segments_def lookup_loop_walk split: option.splits)

lemma child_File: "isFile f \<Longrightarrow> child f part = None"
  by (cases f) (auto simp: child_def)

lemma walk_File: "isFile f \<Longrightarrow> segs \<noteq> [] \<Longrightarrow> walk f segs = None"
  by (cases segs) (auto simp: child_File)

lemma ex_segments_b: "segments ''/site/web-pages/b'' = [''site'', ''web-pages'', ''b'']"
  by (simp add: segments_def)

lemmas ex_tree = root1_def dir_site_def dir_pages_def child_def

text \<open>
  Claim C7. The lookup splits the path on \<^verbatim>\<open>"/"\<close>, skips the empty segments and walks the
  child maps from the root: it is the specification's lookup. When every segment resolves
  it returns the entry reached; a path of slashes only (or the empty path) returns the
  root; at the first segment without a child the non-silent lookup fails with
  \<^verbatim>\<open>FileNotFound\<close> and the silent lookup returns \<^verbatim>\<open>undefined\<close>.
\<close>

theorem lookup_walks_segments:
  "lookup r u silent = lookup_spec r u silent \<and>
   (\<forall>e. walk r (segments (path u)) = Some e \<longrightarrow> lookup r u silent = Inr (Some e)) \<and>
   (set (path u) \<subseteq> {CHR ''/''} \<longrightarrow> lookup r u silent = Inr (Some r)) \<and>
   (\<forall>pre seg post d.
      segments (path u) = pre @ seg # post \<and> walk r pre = Some d \<and> child d seg = None \<longrightarrow>
      lookup r u False = Inl FileNotFound \<and> lookup r u True = Inr None)"
proof (intro conjI allI impI)
  show "lookup r u silent = lookup_spec r u silent" by (rule lookup_eq_spec)
next
  fix e assume "walk r (segments (path u)) = Some e"
  then show "lookup r u silent = Inr (Some e)" by (simp add: lookup_eq_spec lookup_spec_def)
next
  assume "set (path u) \<subseteq> {CHR ''/''}"
  then have "segments (path u) = []" by (rule segments_slashes)
  then show "lookup r u silent = Inr (Some r)" by (simp add: lookup_eq_spec lookup_spec_def)
next
  fix pre seg post d
  assume a: "segments (path u) = pre @ seg # post \<and> walk r pre = Some d \<and> child d seg = None"
  then have w: "walk r (segments (path u)) = None" by (simp add: walk_append)
  show "lookup r u False = Inl FileNotFound" using w by (simp add: lookup_eq_spec lookup_spec_def)
  show "lookup r u True = Inr None" using w by (simp add: lookup_eq_spec lookup_spec_def)
qed

theorem lookup_walks_segments_witness:
  "walk root1 (segments (path (vfs_uri ''/site/web-pages/b''))) = Some file_b \<and>
   lookup root1 (vfs_uri ''/site/web-pages/b'') False = Inr (Some file_b) \<and>
   set (path (vfs_uri ''//'')) \<subseteq> {CHR ''/''} \<and>
   lookup root1 (vfs_uri ''//'') False = Inr (Some root1) \<and>
   segments (path (vfs_uri ''/site/x/b'')) = [''site''] @ ''x'' # [''b''] \<and>
   walk root1 [''site''] = Some dir_site \<and> child dir_site ''x'' = None \<and>
   lookup root1 (vfs_uri ''/site/x/b'') False = Inl FileNotFound \<and>
   lookup root1 (vfs_uri ''/site/x/b'') True = Inr None"
proof -
  have h1: "walk root1 (segments (path (vfs_uri ''/site/web-pages/b''))) = Some file_b"
    by (simp add: vfs_uri_def ex_segments_b ex_tree)
  have h2: "set (path (vfs_uri ''//'')) \<subseteq> {CHR ''/''}" by (simp add: vfs_uri_def)
  have h3: "segments (path (vfs_uri ''/site/x/b'')) = [''site''] @ ''x'' # [''b''] \<and>
            walk root1 [''site''] = Some dir_site \<and> child dir_site ''x'' = None"
    by (simp add: vfs_uri_def segments_def ex_tree)
  show ?thesis
    using h1 h2 h3
      lookup_walks_segments [of root1 "vfs_uri ''/site/web-pages/b''" False]
      lookup_walks_segments [of root1 "vfs_uri ''//''" False]
      lookup_walks_segments [of root1 "vfs_uri ''/site/x/b''" False]
    by blast
qed



text \<open>
  Claim C10. When a prefix of the path, ending before a slash, resolves to a file and a
  segment remains after it, the non-silent lookup fails with \<^verbatim>\<open>FileNotFound\<close> (not with
  \<^verbatim>\<open>FileNotADirectory\<close>), the silent lookup returns \<^verbatim>\<open>undefined\<close>, and \<^verbatim>\<open>stat\<close> fails
  with \<^verbatim>\<open>FileNotFound\<close>.
\<close>

theorem lookup_below_file_NotFound:
  assumes "path u = p1 @ CHR ''/'' # p2"
      and "lookup (root s) (uri_with_path u p1) False = Inr (Some f)"
      and "isFile f"
      and "segments p2 \<noteq> []"
  shows "lookup (root s) u False = Inl FileNotFound \<and>
         lookup (root s) u False \<noteq> Inl (FileNotADirectory u) \<and>
         lookup (root s) u True = Inr None \<and>
         stat u s = (Inl FileNotFound, s)"
proof -
  from assms(2) have "walk (root s) (segments p1) = Some f"
    by (auto simp: lookup_eq_spec lookup_spec_def uri_with_path_def split: option.splits)
  then have "walk (root s) (segments (path u)) = None"
    using assms(1,3,4) by (simp add: segments_append walk_append walk_File)
  then show ?thesis by (simp add: stat_def lookup_eq_spec lookup_spec_def)
qed

theorem lookup_below_file_NotFound_witness:
  "path (vfs_uri ''/site/web-pages/b/c'') = ''/site/web-pages/b'' @ CHR ''/'' # ''c'' \<and>
   lookup (root state1) (uri_with_path (vfs_uri ''/site/web-pages/b/c'') ''/site/web-pages/b'') False
     = Inr (Some file_b) \<and>
   isFile file_b \<and> segments ''c'' \<noteq> [] \<and>
   lookup (root state1) (vfs_uri ''/site/web-pages/b/c'') False = Inl FileNotFound \<and>
   lookup (root state1) (vfs_uri ''/site/web-pages/b/c'') True = Inr None \<and>
   stat (vfs_uri ''/site/web-pages/b/c'') state1 = (Inl FileNotFound, state1)"
proof -
  have h1: "path (vfs_uri ''/site/web-pages/b/c'') = ''/site/web-pages/b'' @ CHR ''/'' # ''c''"
    by (simp add: vfs_uri_def)
  have h2: "lookup (root state1)
              (uri_with_path (vfs_uri ''/site/web-pages/b/c'') ''/site/web-pages/b'') False
            = Inr (Some file_b)"
    by (simp add: lookup_eq_spec lookup_spec_def uri_with_path_def vfs_uri_def ex_segments_b
          state1_def ex_tree)
  have h3: "isFile file_b" by (simp add: file_b_def)
  have h4: "segments ''c'' \<noteq> []" by (simp add: segments_def)
  show ?thesis
    using h1 h2 h3 h4 lookup_below_file_NotFound [OF h1 h2 h3 h4] by simp
qed

subsection \<open>Mutation of the tree\<close>

lemma map_of_map_set: "map_of (map_set m k v) = (map_of m)(k \<mapsto> v)"
  by (induction m) (auto simp: fun_eq_iff)


lemma isDirectory_entries_set [simp]: "isDirectory (entries_set k v e) = isDirectory e"
  by (cases e) auto

lemma child_entries_set:
  "child (entries_set k v e) k' = (if isDirectory e then (if k' = k then Some v else child e k') else None)"
  by (cases e) (auto simp: child_def map_of_map_set)

lemma child_Some_isDirectory: "child e k = Some c \<Longrightarrow> isDirectory e"
  by (auto simp: child_def split: if_splits)

lemma modify_at_filter: "modify_at r ps f = modify_at r (filter (\<lambda>p. p \<noteq> []) ps) f"
  by (induction ps arbitrary: r) (auto split: option.splits)

lemma walk_modify_at:
  "[] \<notin> set segs \<Longrightarrow> walk r segs = Some d \<Longrightarrow> walk (modify_at r segs f) segs = Some (f d)"
proof (induction segs arbitrary: r)
  case Nil then show ?case by simp
next
  case (Cons a segs)
  then obtain c where c: "child r a = Some c" and w: "walk c segs = Some d"
    by (auto split: option.splits)
  have "isDirectory r" using c by (rule child_Some_isDirectory)
  moreover have "a \<noteq> []" using Cons.prems by auto
  ultimately show ?case using Cons c w by (simp add: child_entries_set)
qed

lemma lookup_loop_modify_at:
  assumes "lookup_loop r ps = Some d"
  shows "lookup_loop (modify_at r ps f) ps = Some (f d)"
proof -
  let ?segs = "filter (\<lambda>p. p \<noteq> []) ps"
  have "walk r ?segs = Some d" using assms by (simp add: lookup_loop_walk)
  moreover have "[] \<notin> set ?segs" by simp
  ultimately have "walk (modify_at r ?segs f) ?segs = Some (f d)" by (rule walk_modify_at[rotated])
  then show ?thesis using modify_at_filter[of r ps f] by (simp add: lookup_loop_walk)
qed

lemma lookupAsDirectory_Inr:
  "lookupAsDirectory r u False = Inr p \<longleftrightarrow>
     lookup_loop r (split CHR ''/'' (path u)) = Some p \<and> isDirectory p"
  by (auto simp: lookupAsDirectory_def lookup_def split: option.splits sum.splits if_splits)




subsection \<open>\<^verbatim>\<open>createDirectory\<close>\<close>









lemma ex_dirnames:
  "dirname ''/site/new'' = ''/site''" "basename ''/site/new'' = ''new''"
  "dirname ''/nosuch/x'' = ''/nosuch''" "basename ''/nosuch/x'' = ''x''"
  "dirname ''/site/web-pages/b'' = ''/site/web-pages''" "basename ''/site/web-pages/b'' = ''b''"
  "dirname ''/site/web-pages'' = ''/site''" "basename ''/site/web-pages'' = ''web-pages''"
  by (simp_all add: dirname_def basename_def strip_slashes_def)


subsection \<open>\<^verbatim>\<open>writeFile\<close>\<close>

lemma map_set_twice: "map_set (map_set m k v) k w = map_set m k w"
  by (induction m) auto

lemma entries_set_twice: "entries_set k w (entries_set k v e) = entries_set k w e"
  by (cases e) (auto simp: map_set_twice)

lemma modify_at_twice_segs:
  "[] \<notin> set segs \<Longrightarrow>
   modify_at (modify_at r segs (entries_set k v)) segs (entries_set k w) =
   modify_at r segs (entries_set k w)"
proof (induction segs arbitrary: r)
  case Nil then show ?case by (simp add: entries_set_twice)
next
  case (Cons a segs)
  then have a: "a \<noteq> []" by auto
  show ?case
  proof (cases "child r a")
    case None then show ?thesis using a by simp
  next
    case (Some c)
    then have "isDirectory r" by (rule child_Some_isDirectory)
    then show ?thesis using a Some Cons by (simp add: child_entries_set entries_set_twice)
  qed
qed

lemma modify_at_twice:
  "modify_at (modify_at r ps (entries_set k v)) ps (entries_set k w) =
   modify_at r ps (entries_set k w)"
proof -
  let ?segs = "filter (\<lambda>p. p \<noteq> []) ps"
  have a: "modify_at (modify_at r ?segs (entries_set k v)) ps (entries_set k w) =
           modify_at (modify_at r ?segs (entries_set k v)) ?segs (entries_set k w)"
    by (rule modify_at_filter)
  have b: "modify_at r ps (entries_set k v) = modify_at r ?segs (entries_set k v)"
    by (rule modify_at_filter)
  have c: "modify_at (modify_at r ?segs (entries_set k v)) ?segs (entries_set k w) =
           modify_at r ?segs (entries_set k w)"
    by (rule modify_at_twice_segs) simp
  have d: "modify_at r ps (entries_set k w) = modify_at r ?segs (entries_set k w)"
    by (rule modify_at_filter)
  show ?thesis by (simp only: a b c d)
qed

lemma saveWithProgress_eq:
  "saveWithProgress env u s =
     (case reAuthenticated env of
        Inl e \<Rightarrow>
          (Inl e, s\<lparr>calls := calls s @ [withProgress ''Saving your file ...'',
                      sendInfoTelemetry ''WEB_EXTENSION_SAVE_FILE_TRIGGERED'', reAuthenticate]\<rparr>)
      | Inr token \<Rightarrow>
          (case patchResponse env (patchRequestUrl env u s) u of
             Some e \<Rightarrow>
               (Inl e, s\<lparr>dataverseAccessToken := token,
                         calls := calls s @ [withProgress ''Saving your file ...'',
                           sendInfoTelemetry ''WEB_EXTENSION_SAVE_FILE_TRIGGERED'', reAuthenticate,
                           httpPatch token (patchRequestUrl env u s) u]\<rparr>)
           | None \<Rightarrow>
               (Inr (), clearDirty (fsPath env u)
                          (s\<lparr>dataverseAccessToken := token,
                            calls := calls s @ [withProgress ''Saving your file ...'',
                              sendInfoTelemetry ''WEB_EXTENSION_SAVE_FILE_TRIGGERED'', reAuthenticate,
                              httpPatch token (patchRequestUrl env u s) u]\<rparr>))))"
proof (cases "reAuthenticated env")
  case (Inl e)
  then show ?thesis
    by (simp add: saveWithProgress_def saveFileToDataverseFromVFS_def
          reAuthenticate_context_def call_def)
next
  case (Inr token)
  then show ?thesis
    by (cases "patchResponse env (patchRequestUrl env u s) u")
       (simp_all add: saveWithProgress_def saveFileToDataverseFromVFS_def
          reAuthenticate_context_def saveData_def call_def patchRequestUrl_def Let_def)
qed


lemma saveWithProgress_frame:
  "saveWithProgress env u s = (r, s1) \<Longrightarrow>
   root s1 = root s \<and> bufferedEvents s1 = bufferedEvents s \<and> clock s1 = clock s \<and>
   fireSoonHandle s1 = fireSoonHandle s \<and> fired s1 = fired s"
  by (cases "reAuthenticated env"; cases "patchResponse env (patchRequestUrl env u s) u")
     (auto simp: saveWithProgress_eq clearDirty_def)

lemma lookupParentDirectory_Inr:
  "lookupParentDirectory r u = Inr p \<longleftrightarrow>
     lookup_loop r (split CHR ''/'' (dirname (path u))) = Some p \<and> isDirectory p"
  by (simp add: lookupParentDirectory_def lookupAsDirectory_Inr uri_with_path_def)

lemma lookupParentDirectory_mutate:
  assumes "lookupParentDirectory (root s) u = Inr p"
  shows "lookupParentDirectory
           (root (mutate (uri_with_path u (dirname (path u))) (entries_set k v) s)) u =
         Inr (entries_set k v p)"
  using assms
  by (simp add: lookupParentDirectory_Inr mutate_def uri_with_path_def lookup_loop_modify_at)

text \<open>
  For a path with a last segment that is not a bare relative name, the child of the parent
  under the base name, which \<^verbatim>\<open>writeFile\<close> takes for its target, is the entry that the
  lookup of the uri finds.
\<close>

lemma target_is_entry_at_uri:
  assumes "lookupParentDirectory r u = Inr p"
      and "segments (path u) \<noteq> []" and "\<not> bare_name (path u)"
  shows "lookup r u True = Inr (map_of (entries p) (basename (path u)))"
proof -
  from assms(1) have lp: "lookup_loop r (split CHR ''/'' (dirname (path u))) = Some p"
    and dp: "isDirectory p"
    by (simp_all add: lookupParentDirectory_Inr)
  have wp: "walk r (segments (dirname (path u))) = Some p"
    using lp by (simp add: lookup_loop_walk segments_def)
  have dec: "segments (dirname (path u)) @ [basename (path u)] = segments (path u)"
    using assms(2,3) by (rule path_decomposition)
  have "walk r (segments (path u)) = child p (basename (path u))"
    unfolding dec[symmetric] using wp by (simp add: walk_append split: option.splits)
  then show ?thesis using dp
    by (simp add: lookup_eq_spec lookup_spec_def child_def split: option.splits)
qed

lemma written_File:
  "isFile e \<Longrightarrow>
   set_data content (set_size n (set_mtime t e)) = File (etype e) (ctime e) t n (name e) content"
  by (cases e) simp_all

lemma writeFile_isDirectory:
  "lookupParentDirectory (root s) u = Inr p \<Longrightarrow>
   map_of (entries p) (basename (path u)) = Some e \<Longrightarrow> isDirectory e \<Longrightarrow>
   writeFile env u content options s = (Inl (FileIsADirectory u), s)"
  by (simp add: writeFile_def)

lemma writeFile_absent_no_create:
  "lookupParentDirectory (root s) u = Inr p \<Longrightarrow>
   map_of (entries p) (basename (path u)) = None \<Longrightarrow> \<not> create options \<Longrightarrow>
   writeFile env u content options s = (Inl FileNotFound, s)"
  by (simp add: writeFile_def)

lemma isFile_not_isDirectory: "isFile e \<longleftrightarrow> \<not> isDirectory e"
  by (cases e) simp_all

lemma writeFile_exists_no_overwrite:
  "lookupParentDirectory (root s) u = Inr p \<Longrightarrow>
   map_of (entries p) (basename (path u)) = Some e \<Longrightarrow> isFile e \<Longrightarrow>
   create options \<Longrightarrow> \<not> overwrite options \<Longrightarrow>
   writeFile env u content options s = (Inl (FileExists u), s)"
  by (simp add: writeFile_def isFile_not_isDirectory)


lemma writeFile_assign_eq:
  "isFile e \<Longrightarrow>
   writeFile_assign env u bn content e s =
     s\<lparr>clock := clock s + 1,
       root := modify_at (root s) (split CHR ''/'' (dirname (path u)))
                 (entries_set bn (File (etype e) (ctime e) (now env (clock s))
                                    (int (length content)) (name e) content)),
       bufferedEvents := bufferedEvents s @ [(Changed, u)],
       fireSoonHandle := True\<rparr>"
  by (simp add: writeFile_assign_def Date_now_def mutate_def fireSoon_def uri_with_path_def
        written_File)

lemma writeFile_new:
  assumes "lookupParentDirectory (root s) u = Inr p"
      and "map_of (entries p) (basename (path u)) = None"
      and "create options"
  shows "writeFile env u content options s =
     (Inr (),
      s\<lparr>clock := clock s + 3,
        root := modify_at (root s) (split CHR ''/'' (dirname (path u)))
                  (entries_set (basename (path u))
                     (File FileType_File (now env (clock s)) (now env (clock s + 2))
                        (int (length content)) (basename (path u)) content)),
        bufferedEvents := bufferedEvents s @ [(Created, u), (Changed, u)],
        fireSoonHandle := True\<rparr>)"
  using assms
  by (simp add: writeFile_def writeFile_entry_def new_File_def Date_now_def Let_def
        writeFile_assign_eq mutate_def fireSoon_def uri_with_path_def modify_at_twice
        numeral_3_eq_3)

lemma writeFile_existing:
  assumes "lookupParentDirectory (root s) u = Inr p"
      and "map_of (entries p) (basename (path u)) = Some e"
      and "isFile e"
      and "\<not> (create options \<and> \<not> overwrite options)"
  shows "writeFile env u content options s =
     (if isDirty s (fsPath env u) then
        (case saveWithProgress env u s of
           (Inl err, s1) \<Rightarrow> (Inl err, s1)
         | (Inr _, s1) \<Rightarrow> (Inr (), writeFile_assign env u (basename (path u)) content e s1))
      else (Inr (), writeFile_assign env u (basename (path u)) content e s))"
  using assms
  by (auto simp: writeFile_def writeFile_entry_def Let_def isFile_not_isDirectory
        split: prod.splits sum.splits)


lemma writeFile_no_parent:
  "lookupParentDirectory (root s) u = Inl e \<Longrightarrow> writeFile env u content options s = (Inl e, s)"
  by (simp add: writeFile_def)

lemma writeFile_cases [case_names fail new clean saved save_failed]:
  obtains
    e where "writeFile env u content options s = (Inl e, s)"
  | p where "lookupParentDirectory (root s) u = Inr p"
        "map_of (entries p) (basename (path u)) = None" "create options"
  | p e where "lookupParentDirectory (root s) u = Inr p"
        "map_of (entries p) (basename (path u)) = Some e" "isFile e"
        "\<not> (create options \<and> \<not> overwrite options)" "\<not> isDirty s (fsPath env u)"
        "writeFile env u content options s =
           (Inr (), writeFile_assign env u (basename (path u)) content e s)"
  | p e s1 where "lookupParentDirectory (root s) u = Inr p"
        "map_of (entries p) (basename (path u)) = Some e" "isFile e"
        "\<not> (create options \<and> \<not> overwrite options)" "isDirty s (fsPath env u)"
        "saveWithProgress env u s = (Inr (), s1)"
        "writeFile env u content options s =
           (Inr (), writeFile_assign env u (basename (path u)) content e s1)"
  | p e err s1 where "lookupParentDirectory (root s) u = Inr p"
        "map_of (entries p) (basename (path u)) = Some e" "isFile e"
        "\<not> (create options \<and> \<not> overwrite options)" "isDirty s (fsPath env u)"
        "saveWithProgress env u s = (Inl err, s1)"
        "writeFile env u content options s = (Inl err, s1)"
proof (cases "lookupParentDirectory (root s) u")
  case (Inl e)
  then show ?thesis using that(1) writeFile_no_parent by blast
next
  case (Inr p)
  show ?thesis
  proof (cases "map_of (entries p) (basename (path u))")
    case None
    show ?thesis
    proof (cases "create options")
      case True then show ?thesis using that(2) Inr None by blast
    next
      case False
      then show ?thesis using that(1) writeFile_absent_no_create[OF Inr None] by blast
    qed
  next
    case (Some e)
    show ?thesis
    proof (cases "isDirectory e")
      case True
      then show ?thesis using that(1) writeFile_isDirectory[OF Inr Some] by blast
    next
      case False
      then have f: "isFile e" by (simp add: isFile_not_isDirectory)
      show ?thesis
      proof (cases "create options \<and> \<not> overwrite options")
        case True
        then show ?thesis using that(1) writeFile_exists_no_overwrite[OF Inr Some f] by blast
      next
        case g: False
        note ex = writeFile_existing[OF Inr Some f g, of env content]
        show ?thesis
        proof (cases "isDirty s (fsPath env u)")
          case False
          then show ?thesis using that(3)[OF Inr Some f g] ex by simp
        next
          case True
          obtain r s1 where sv: "saveWithProgress env u s = (r, s1)" by (cases "saveWithProgress env u s")
          show ?thesis
          proof (cases r)
            case (Inl err)
            then show ?thesis using that(5)[OF Inr Some f g True] sv ex True by simp
          next
            case (Inr x)
            then show ?thesis using that(4)[OF \<open>lookupParentDirectory (root s) u = Inr p\<close> Some f g True] sv ex True by simp
          qed
        qed
      qed
    qed
  qed
qed

lemma map_of_clear:
  "map_of (map (\<lambda>(k', fd). if k' = k then (k', fd\<lparr>hasDirtyChanges := False\<rparr>) else (k', fd)) m) k'
   = (if k' = k then map_option (\<lambda>fd. fd\<lparr>hasDirtyChanges := False\<rparr>) (map_of m k')
      else map_of m k')"
  by (induction m) auto

lemma isDirty_clearDirty: "isDirty (clearDirty k s) k' \<longleftrightarrow> k' \<noteq> k \<and> isDirty s k'"
  by (cases "map_of (fileMap s) k'")
     (auto simp: isDirty_def clearDirty_def map_of_clear split: option.splits)

lemma isDirty_fileMap: "fileMap s' = fileMap s \<Longrightarrow> isDirty s' k = isDirty s k"
  by (simp add: isDirty_def)

lemma writeFile_assign_frame:
  "fileMap (writeFile_assign env u bn content e s) = fileMap s \<and>
   calls (writeFile_assign env u bn content e s) = calls s"
  by (simp add: writeFile_assign_def Date_now_def mutate_def fireSoon_def Let_def)

lemma child_entries_set_same: "isDirectory p \<Longrightarrow> child (entries_set k v p) k = Some v"
  by (simp add: child_entries_set)


text \<open>
  Claim C9. For a call on an existing file whose file data is dirty: if the save under the
  progress notification throws, \<^verbatim>\<open>writeFile\<close> fails; when the save is reached (the call is
  not rejected for \<^verbatim>\<open>create\<close> without \<^verbatim>\<open>overwrite\<close>) it fails with the error of the
  save. The tree is unchanged, so the data, the size and the modification time of the
  entry are, and no event is emitted.
\<close>

theorem writeFile_save_failure_atomic:
  assumes "lookupParentDirectory (root s) u = Inr p"
      and "map_of (entries p) (basename (path u)) = Some e"
      and "isFile e"
      and "isDirty s (fsPath env u)"
      and "saveWithProgress env u s = (Inl err, s1)"
  shows "(\<not> (create options \<and> \<not> overwrite options) \<longrightarrow>
            writeFile env u content options s = (Inl err, s1)) \<and>
         (\<exists>err'. fst (writeFile env u content options s) = Inl err') \<and>
         root (snd (writeFile env u content options s)) = root s \<and>
         lookupParentDirectory (root (snd (writeFile env u content options s))) u = Inr p \<and>
         bufferedEvents (snd (writeFile env u content options s)) = bufferedEvents s"
proof (cases "create options \<and> \<not> overwrite options")
  case True
  then have "writeFile env u content options s = (Inl (FileExists u), s)"
    using writeFile_exists_no_overwrite[OF assms(1,2,3)] by simp
  then show ?thesis using True assms(1) by simp
next
  case False
  have "writeFile env u content options s = (Inl err, s1)"
    using writeFile_existing[OF assms(1,2,3) False, of env content] assms(4,5) by simp
  moreover have "root s1 = root s" "bufferedEvents s1 = bufferedEvents s"
    using saveWithProgress_frame[OF assms(5)] by simp_all
  ultimately show ?thesis using assms(1) by simp
qed


lemma saveWithProgress_Inr:
  assumes "saveWithProgress env u s = (Inr x, s1)"
  shows "\<exists>token. reAuthenticated env = Inr token \<and>
           patchResponse env (patchRequestUrl env u s) u = None \<and>
           s1 = clearDirty (fsPath env u)
                  (s\<lparr>dataverseAccessToken := token,
                    calls := calls s @ [withProgress ''Saving your file ...'',
                      sendInfoTelemetry ''WEB_EXTENSION_SAVE_FILE_TRIGGERED'', reAuthenticate,
                      httpPatch token (patchRequestUrl env u s) u]\<rparr>)"
  using assms
  by (cases "reAuthenticated env"; cases "patchResponse env (patchRequestUrl env u s) u")
     (auto simp: saveWithProgress_eq)

lemma saveWithProgress_Inl:
  assumes "saveWithProgress env u s = (Inl e, s1)"
  shows "fileMap s1 = fileMap s"
  using assms
  by (cases "reAuthenticated env"; cases "patchResponse env (patchRequestUrl env u s) u")
     (auto simp: saveWithProgress_eq)

lemma saveWithProgress_calls:
  "calls (snd (saveWithProgress env u s)) =
     calls s @ [withProgress ''Saving your file ...'',
                sendInfoTelemetry ''WEB_EXTENSION_SAVE_FILE_TRIGGERED'', reAuthenticate] @
       (case reAuthenticated env of
          Inl err \<Rightarrow> []
        | Inr token \<Rightarrow> [httpPatch token (patchRequestUrl env u s) u])"
  by (cases "reAuthenticated env"; cases "patchResponse env (patchRequestUrl env u s) u")
     (auto simp: saveWithProgress_eq clearDirty_def)

lemma writeFile_assign_parent:
  assumes "lookupParentDirectory (root s) u = Inr p" and "isFile e"
  shows "lookupParentDirectory (root (writeFile_assign env u bn content e s)) u =
           Inr (entries_set bn (File (etype e) (ctime e) (now env (clock s))
                                  (int (length content)) (name e) content) p)"
  using assms
  by (simp add: writeFile_assign_eq lookupParentDirectory_Inr lookup_loop_modify_at)

text \<open>
  Claim C1, amended. When the parent directory exists: if the target is a file whose file
  data is dirty and the call is not rejected for \<^verbatim>\<open>create\<close> without \<^verbatim>\<open>overwrite\<close>,
  \<^verbatim>\<open>writeFile\<close> runs the save under the progress notification once, before the
  assignments, and the calls it issues are the notification, the telemetry event, one
  re-authentication and, when that succeeds, one PATCH request. In every successful call
  the parent holds under the base name a file with the new content, its byte length as
  size and the clock reading of this call as modification time, and the events emitted
  are \<^verbatim>\<open>Created\<close> (only for a new entry) and \<^verbatim>\<open>Changed\<close>. A dirty flag that the call
  clears is the one of this file, and then the save succeeded.
\<close>

theorem writeFile_saves_then_writes:
  assumes par: "lookupParentDirectory (root s) u = Inr p"
  shows "(\<forall>e. map_of (entries p) (basename (path u)) = Some e \<and> isFile e \<and>
              \<not> (create options \<and> \<not> overwrite options) \<and> isDirty s (fsPath env u) \<longrightarrow>
            writeFile env u content options s =
              (case saveWithProgress env u s of
                 (Inl err, s1) \<Rightarrow> (Inl err, s1)
               | (Inr x, s1) \<Rightarrow>
                   (Inr (), writeFile_assign env u (basename (path u)) content e s1)) \<and>
            calls (snd (writeFile env u content options s)) =
              calls s @ [withProgress ''Saving your file ...'',
                         sendInfoTelemetry ''WEB_EXTENSION_SAVE_FILE_TRIGGERED'', reAuthenticate] @
                (case reAuthenticated env of
                   Inl err \<Rightarrow> []
                 | Inr token \<Rightarrow> [httpPatch token (patchRequestUrl env u s) u])) \<and>
         (fst (writeFile env u content options s) = Inr () \<longrightarrow>
            (let s' = snd (writeFile env u content options s); bn = basename (path u)
             in (\<exists>w. lookupParentDirectory (root s') u = Inr (entries_set bn w p) \<and>
                      child (entries_set bn w p) bn = Some w \<and> isFile w \<and>
                      data w = content \<and> esize w = int (length content) \<and>
                      mtime w = now env (clock s' - 1) \<and> clock s < clock s') \<and>
                bufferedEvents s' =
                  bufferedEvents s @
                    (if map_of (entries p) bn = None then [(Created, u)] else []) @
                    [(Changed, u)])) \<and>
         (\<forall>k. isDirty s k \<and> \<not> isDirty (snd (writeFile env u content options s)) k \<longrightarrow>
              k = fsPath env u \<and> fst (saveWithProgress env u s) = Inr () \<and>
              (\<exists>token. reAuthenticated env = Inr token) \<and>
              patchResponse env (patchRequestUrl env u s) u = None)"
proof (intro conjI allI impI)
  fix e
  assume a: "map_of (entries p) (basename (path u)) = Some e \<and> isFile e \<and>
             \<not> (create options \<and> \<not> overwrite options) \<and> isDirty s (fsPath env u)"
  have ex: "writeFile env u content options s =
              (case saveWithProgress env u s of
                 (Inl err, s1) \<Rightarrow> (Inl err, s1)
               | (Inr x, s1) \<Rightarrow>
                   (Inr (), writeFile_assign env u (basename (path u)) content e s1))"
    using writeFile_existing[OF par, of e options env content] a by simp
  show "writeFile env u content options s =
              (case saveWithProgress env u s of
                 (Inl err, s1) \<Rightarrow> (Inl err, s1)
               | (Inr x, s1) \<Rightarrow>
                   (Inr (), writeFile_assign env u (basename (path u)) content e s1))"
    by (rule ex)
  have "calls (snd (writeFile env u content options s)) = calls (snd (saveWithProgress env u s))"
    unfolding ex by (auto simp: writeFile_assign_frame split: prod.splits sum.splits)
  then show "calls (snd (writeFile env u content options s)) =
              calls s @ [withProgress ''Saving your file ...'',
                         sendInfoTelemetry ''WEB_EXTENSION_SAVE_FILE_TRIGGERED'', reAuthenticate] @
                (case reAuthenticated env of
                   Inl err \<Rightarrow> []
                 | Inr token \<Rightarrow> [httpPatch token (patchRequestUrl env u s) u])"
    by (simp only: saveWithProgress_calls)
next
  assume ok: "fst (writeFile env u content options s) = Inr ()"
  define s' where "s' = snd (writeFile env u content options s)"
  define bn where "bn = basename (path u)"
  have dp: "isDirectory p" using par by (simp add: lookupParentDirectory_Inr)
  have "(\<exists>w. lookupParentDirectory (root s') u = Inr (entries_set bn w p) \<and>
              child (entries_set bn w p) bn = Some w \<and> isFile w \<and>
              data w = content \<and> esize w = int (length content) \<and>
              mtime w = now env (clock s' - 1) \<and> clock s < clock s') \<and>
        bufferedEvents s' =
          bufferedEvents s @ (if map_of (entries p) bn = None then [(Created, u)] else []) @
            [(Changed, u)]"
  proof (cases rule: writeFile_cases[of env u content options s])
    case (fail e)
    with ok show ?thesis by simp
  next
    case (save_failed p' e err s1)
    with ok show ?thesis by simp
  next
    case (new p')
    then have pp: "p' = p" using par by simp
    let ?w = "File FileType_File (now env (clock s)) (now env (clock s + 2))
                (int (length content)) bn content"
    have st: "s' = s\<lparr>clock := clock s + 3,
        root := modify_at (root s) (split CHR ''/'' (dirname (path u))) (entries_set bn ?w),
        bufferedEvents := bufferedEvents s @ [(Created, u), (Changed, u)],
        fireSoonHandle := True\<rparr>"
      unfolding s'_def bn_def using writeFile_new[OF par, of options env content] new pp by simp
    have "lookupParentDirectory (root s') u = Inr (entries_set bn ?w p)"
      using par by (simp add: st lookupParentDirectory_Inr lookup_loop_modify_at)
    moreover have "child (entries_set bn ?w p) bn = Some ?w"
      using dp by (rule child_entries_set_same)
    moreover have "mtime ?w = now env (clock s' - 1)" "clock s < clock s'"
      by (simp_all add: st)
    moreover have "bufferedEvents s' =
          bufferedEvents s @ (if map_of (entries p) bn = None then [(Created, u)] else []) @
            [(Changed, u)]"
      using new pp by (simp add: st bn_def)
    ultimately show ?thesis by (intro conjI exI[of _ ?w]) simp_all
  next
    case (clean p' e)
    then have pp: "p' = p" using par by simp
    let ?w = "File (etype e) (ctime e) (now env (clock s)) (int (length content)) (name e) content"
    have st: "s' = writeFile_assign env u bn content e s"
      unfolding s'_def bn_def using clean by simp
    have "lookupParentDirectory (root s') u = Inr (entries_set bn ?w p)"
      unfolding st using par clean(3) by (rule writeFile_assign_parent)
    moreover have "child (entries_set bn ?w p) bn = Some ?w"
      using dp by (rule child_entries_set_same)
    moreover have "mtime ?w = now env (clock s' - 1)" "clock s < clock s'"
      using clean(3) by (simp_all add: st writeFile_assign_eq)
    moreover have "bufferedEvents s' =
          bufferedEvents s @ (if map_of (entries p) bn = None then [(Created, u)] else []) @
            [(Changed, u)]"
      using clean pp by (simp add: st bn_def writeFile_assign_eq)
    ultimately show ?thesis by (intro conjI exI[of _ ?w]) simp_all
  next
    case (saved p' e s1)
    then have pp: "p' = p" using par by simp
    note fr = saveWithProgress_frame[OF saved(6)]
    let ?w = "File (etype e) (ctime e) (now env (clock s)) (int (length content)) (name e) content"
    have st: "s' = writeFile_assign env u bn content e s1"
      unfolding s'_def bn_def using saved by simp
    have par1: "lookupParentDirectory (root s1) u = Inr p" using par fr by simp
    have "lookupParentDirectory (root s') u = Inr (entries_set bn ?w p)"
      unfolding st using writeFile_assign_parent[OF par1 saved(3), of env bn content] fr by simp
    moreover have "child (entries_set bn ?w p) bn = Some ?w"
      using dp by (rule child_entries_set_same)
    moreover have "mtime ?w = now env (clock s' - 1)" "clock s < clock s'"
      using saved(3) fr by (simp_all add: st writeFile_assign_eq)
    moreover have "bufferedEvents s' =
          bufferedEvents s @ (if map_of (entries p) bn = None then [(Created, u)] else []) @
            [(Changed, u)]"
      using saved pp fr by (simp add: st bn_def writeFile_assign_eq)
    ultimately show ?thesis by (intro conjI exI[of _ ?w]) simp_all
  qed
  then show "let s' = snd (writeFile env u content options s); bn = basename (path u)
             in (\<exists>w. lookupParentDirectory (root s') u = Inr (entries_set bn w p) \<and>
                      child (entries_set bn w p) bn = Some w \<and> isFile w \<and>
                      data w = content \<and> esize w = int (length content) \<and>
                      mtime w = now env (clock s' - 1) \<and> clock s < clock s') \<and>
                bufferedEvents s' =
                  bufferedEvents s @
                    (if map_of (entries p) bn = None then [(Created, u)] else []) @
                    [(Changed, u)]"
    unfolding Let_def s'_def bn_def .
next
  fix k
  assume d: "isDirty s k \<and> \<not> isDirty (snd (writeFile env u content options s)) k"
  have "k = fsPath env u \<and> fst (saveWithProgress env u s) = Inr () \<and>
        (\<exists>token. reAuthenticated env = Inr token) \<and>
        patchResponse env (patchRequestUrl env u s) u = None"
  proof (cases rule: writeFile_cases[of env u content options s])
    case (fail e)
    with d show ?thesis by simp
  next
    case (new p')
    then have pp: "p' = p" using par by simp
    have "fileMap (snd (writeFile env u content options s)) = fileMap s"
      using writeFile_new[OF par, of options env content] new pp by simp
    with d show ?thesis by (simp add: isDirty_def)
  next
    case (clean p' e)
    then have "fileMap (snd (writeFile env u content options s)) = fileMap s"
      by (simp add: writeFile_assign_frame)
    with d show ?thesis by (simp add: isDirty_def)
  next
    case (save_failed p' e err s1)
    then have "fileMap (snd (writeFile env u content options s)) = fileMap s"
      using saveWithProgress_Inl[OF save_failed(6)] by simp
    with d show ?thesis by (simp add: isDirty_def)
  next
    case (saved p' e s1)
    from saveWithProgress_Inr[OF saved(6)] obtain token where
      t: "reAuthenticated env = Inr token"
      and pr: "patchResponse env (patchRequestUrl env u s) u = None"
      and s1: "s1 = clearDirty (fsPath env u)
                  (s\<lparr>dataverseAccessToken := token,
                    calls := calls s @ [withProgress ''Saving your file ...'',
                      sendInfoTelemetry ''WEB_EXTENSION_SAVE_FILE_TRIGGERED'', reAuthenticate,
                      httpPatch token (patchRequestUrl env u s) u]\<rparr>)"
      by blast
    have "isDirty (snd (writeFile env u content options s)) k = isDirty s1 k"
      using saved by (simp add: isDirty_def writeFile_assign_frame)
    also have "\<dots> = (k \<noteq> fsPath env u \<and> isDirty s k)"
      unfolding s1 by (simp add: isDirty_clearDirty) (simp add: isDirty_def)
    finally have "k = fsPath env u" using d by blast
    then show ?thesis using t pr saved(6) by simp
  qed
  then show "k = fsPath env u" "fst (saveWithProgress env u s) = Inr ()"
    "\<exists>token. reAuthenticated env = Inr token"
    "patchResponse env (patchRequestUrl env u s) u = None"
    by simp_all
qed

lemma ex_parent_b:
  "lookupParentDirectory (root state1) (vfs_uri ''/site/web-pages/b'') = Inr dir_pages"
  by (simp add: lookupParentDirectory_def lookupAsDirectory_def lookup_eq_spec lookup_spec_def
        vfs_uri_def uri_with_path_def ex_dirnames segments_def state1_def root1_def
        dir_site_def child_def)
     (simp add: dir_pages_def)

lemma ex_target_b:
  "map_of (entries dir_pages) (basename (path (vfs_uri ''/site/web-pages/b''))) = Some file_b"
  by (simp add: vfs_uri_def ex_dirnames dir_pages_def)

lemma ex_dirty_b: "isDirty state1 (fsPath env1 (vfs_uri ''/site/web-pages/b''))"
  by (simp add: isDirty_def state1_def env1_def vfs_uri_def)

lemma ex_isFile_b: "isFile file_b"
  by (simp add: file_b_def)



text \<open>
  Claim C1 as stated fails: a call with \<^verbatim>\<open>create\<close> and without \<^verbatim>\<open>overwrite\<close> on an
  existing file whose file data is dirty is rejected with \<^verbatim>\<open>FileExists\<close> and issues no
  call at all, so no save.
\<close>

theorem writeFile_dirty_no_save_counterexample:
  "lookupParentDirectory (root state1) (vfs_uri ''/site/web-pages/b'') = Inr dir_pages \<and>
   map_of (entries dir_pages) (basename (path (vfs_uri ''/site/web-pages/b''))) = Some file_b \<and>
   isDirty state1 (fsPath env1 (vfs_uri ''/site/web-pages/b'')) \<and>
   writeFile env1 (vfs_uri ''/site/web-pages/b'') [7] \<lparr>create = True, overwrite = False\<rparr> state1 =
     (Inl (FileExists (vfs_uri ''/site/web-pages/b'')), state1) \<and>
   calls state1 = []"
  using ex_parent_b ex_target_b ex_dirty_b
    writeFile_exists_no_overwrite[OF ex_parent_b ex_target_b ex_isFile_b,
      where options = "\<lparr>create = True, overwrite = False\<rparr>" and env = env1
        and content = "[7]"]
  by (simp add: state1_def)



lemma ex_more_dirnames:
  "dirname ''/site/web-pages/zz'' = ''/site/web-pages''" "basename ''/site/web-pages/zz'' = ''zz''"
  by (simp_all add: dirname_def basename_def strip_slashes_def)

lemma ex_parent_zz:
  "lookupParentDirectory (root state1) (vfs_uri ''/site/web-pages/zz'') = Inr dir_pages"
  by (simp add: lookupParentDirectory_def lookupAsDirectory_def lookup_eq_spec lookup_spec_def
        vfs_uri_def uri_with_path_def ex_more_dirnames segments_def state1_def root1_def
        dir_site_def child_def)
     (simp add: dir_pages_def)

lemma ex_target_zz:
  "map_of (entries dir_pages) (basename (path (vfs_uri ''/site/web-pages/zz''))) = None"
  by (simp add: vfs_uri_def ex_more_dirnames dir_pages_def)


lemma ex_save_fail:
  "saveWithProgress env_fail (vfs_uri ''/site/web-pages/b'') state1 =
     (Inl (Error ''Bad Request''),
      state1\<lparr>dataverseAccessToken := ''fresh token'',
             calls := [withProgress ''Saving your file ...'',
                       sendInfoTelemetry ''WEB_EXTENSION_SAVE_FILE_TRIGGERED'', reAuthenticate,
                       httpPatch ''fresh token'' ''https://org/api''
                         (vfs_uri ''/site/web-pages/b'')]\<rparr>)"
  by (simp add: saveWithProgress_eq env_fail_def env1_def patchRequestUrl_def state1_def)

lemma ex_dirty_b_fail: "isDirty state1 (fsPath env_fail (vfs_uri ''/site/web-pages/b''))"
  by (simp add: isDirty_def state1_def env_fail_def env1_def vfs_uri_def)

theorem writeFile_save_failure_atomic_witness:
  "lookupParentDirectory (root state1) (vfs_uri ''/site/web-pages/b'') = Inr dir_pages \<and>
   map_of (entries dir_pages) (basename (path (vfs_uri ''/site/web-pages/b''))) = Some file_b \<and>
   isFile file_b \<and>
   isDirty state1 (fsPath env_fail (vfs_uri ''/site/web-pages/b'')) \<and>
   fst (saveWithProgress env_fail (vfs_uri ''/site/web-pages/b'') state1) =
     Inl (Error ''Bad Request'') \<and>
   fst (writeFile env_fail (vfs_uri ''/site/web-pages/b'') [7, 8]
          \<lparr>create = False, overwrite = True\<rparr> state1) = Inl (Error ''Bad Request'') \<and>
   root (snd (writeFile env_fail (vfs_uri ''/site/web-pages/b'') [7, 8]
          \<lparr>create = False, overwrite = True\<rparr> state1)) = root state1 \<and>
   lookupParentDirectory
     (root (snd (writeFile env_fail (vfs_uri ''/site/web-pages/b'') [7, 8]
          \<lparr>create = False, overwrite = True\<rparr> state1))) (vfs_uri ''/site/web-pages/b'')
     = Inr dir_pages \<and>
   bufferedEvents (snd (writeFile env_fail (vfs_uri ''/site/web-pages/b'') [7, 8]
          \<lparr>create = False, overwrite = True\<rparr> state1)) = bufferedEvents state1"
  using ex_parent_b ex_target_b ex_isFile_b ex_dirty_b_fail ex_save_fail
    writeFile_save_failure_atomic [OF ex_parent_b ex_target_b ex_isFile_b ex_dirty_b_fail
      ex_save_fail, where options = "\<lparr>create = False, overwrite = True\<rparr>"
        and content = "[7, 8]"]
  by simp


lemma ex_save_ok:
  "saveWithProgress env1 (vfs_uri ''/site/web-pages/b'') state1 =
     (Inr (),
      clearDirty ''/site/web-pages/b''
        (state1\<lparr>dataverseAccessToken := ''fresh token'',
               calls := [withProgress ''Saving your file ...'',
                         sendInfoTelemetry ''WEB_EXTENSION_SAVE_FILE_TRIGGERED'', reAuthenticate,
                         httpPatch ''fresh token'' ''https://org/api''
                           (vfs_uri ''/site/web-pages/b'')]\<rparr>))"
  by (simp add: saveWithProgress_eq env1_def patchRequestUrl_def state1_def vfs_uri_def)

theorem writeFile_saves_then_writes_witness:
  "(map_of (entries dir_pages) (basename (path (vfs_uri ''/site/web-pages/b''))) = Some file_b \<and>
   isFile file_b \<and>
   \<not> (create \<lparr>create = False, overwrite = True\<rparr> \<and> \<not> overwrite \<lparr>create = False, overwrite = True\<rparr>) \<and>
   isDirty state1 (fsPath env1 (vfs_uri ''/site/web-pages/b'')) \<and>
   fst (writeFile env1 (vfs_uri ''/site/web-pages/b'') [7, 8]
          \<lparr>create = False, overwrite = True\<rparr> state1) = Inr () \<and>
   calls (snd (writeFile env1 (vfs_uri ''/site/web-pages/b'') [7, 8]
          \<lparr>create = False, overwrite = True\<rparr> state1)) =
     [withProgress ''Saving your file ...'',
      sendInfoTelemetry ''WEB_EXTENSION_SAVE_FILE_TRIGGERED'', reAuthenticate,
      httpPatch ''fresh token'' ''https://org/api'' (vfs_uri ''/site/web-pages/b'')] \<and>
   (\<exists>w. lookupParentDirectory
          (root (snd (writeFile env1 (vfs_uri ''/site/web-pages/b'') [7, 8]
             \<lparr>create = False, overwrite = True\<rparr> state1))) (vfs_uri ''/site/web-pages/b'')
          = Inr (entries_set ''b'' w dir_pages) \<and>
        child (entries_set ''b'' w dir_pages) ''b'' = Some w \<and> isFile w \<and>
        data w = [7, 8] \<and> esize w = 2 \<and> mtime w = 1000) \<and>
   bufferedEvents (snd (writeFile env1 (vfs_uri ''/site/web-pages/b'') [7, 8]
          \<lparr>create = False, overwrite = True\<rparr> state1)) =
     [(Changed, vfs_uri ''/site/web-pages/b'')] \<and>
   \<not> isDirty (snd (writeFile env1 (vfs_uri ''/site/web-pages/b'') [7, 8]
          \<lparr>create = False, overwrite = True\<rparr> state1))
       (fsPath env1 (vfs_uri ''/site/web-pages/b'')) \<and>
   patchResponse env1 (patchRequestUrl env1 (vfs_uri ''/site/web-pages/b'') state1)
     (vfs_uri ''/site/web-pages/b'') = None) \<and>
   (map_of (entries dir_pages) (basename (path (vfs_uri ''/site/web-pages/zz''))) = None \<and>
    fst (writeFile env1 (vfs_uri ''/site/web-pages/zz'') [9]
           \<lparr>create = True, overwrite = False\<rparr> state1) = Inr () \<and>
    (\<exists>w. lookupParentDirectory
           (root (snd (writeFile env1 (vfs_uri ''/site/web-pages/zz'') [9]
              \<lparr>create = True, overwrite = False\<rparr> state1))) (vfs_uri ''/site/web-pages/zz'')
           = Inr (entries_set ''zz'' w dir_pages) \<and>
         child (entries_set ''zz'' w dir_pages) ''zz'' = Some w \<and> isFile w \<and>
         data w = [9] \<and> esize w = 1 \<and> mtime w = 1002) \<and>
    bufferedEvents (snd (writeFile env1 (vfs_uri ''/site/web-pages/zz'') [9]
           \<lparr>create = True, overwrite = False\<rparr> state1)) =
      [(Created, vfs_uri ''/site/web-pages/zz''), (Changed, vfs_uri ''/site/web-pages/zz'')])"
proof -
  let ?u = "vfs_uri ''/site/web-pages/b''"
  let ?o = "\<lparr>create = False, overwrite = True\<rparr>"
  let ?s' = "snd (writeFile env1 ?u [7, 8] ?o state1)"
  note T = writeFile_saves_then_writes [OF ex_parent_b, where env = env1
             and content = "[7, 8]" and options = ?o]
  have g: "\<not> (create ?o \<and> \<not> overwrite ?o)" by simp
  have bn: "basename (path ?u) = ''b''" by (simp add: vfs_uri_def ex_dirnames)
  from T ex_target_b ex_isFile_b g ex_dirty_b
  have A: "writeFile env1 ?u [7, 8] ?o state1 =
             (case saveWithProgress env1 ?u state1 of
                (Inl err, s1) \<Rightarrow> (Inl err, s1)
              | (Inr x, s1) \<Rightarrow>
                  (Inr (), writeFile_assign env1 ?u (basename (path ?u)) [7, 8] file_b s1))"
    and C: "calls ?s' =
              calls state1 @ [withProgress ''Saving your file ...'',
                 sendInfoTelemetry ''WEB_EXTENSION_SAVE_FILE_TRIGGERED'', reAuthenticate] @
                (case reAuthenticated env1 of
                   Inl err \<Rightarrow> []
                 | Inr token \<Rightarrow> [httpPatch token (patchRequestUrl env1 ?u state1) ?u])"
    by blast+
  have ok: "fst (writeFile env1 ?u [7, 8] ?o state1) = Inr ()"
    unfolding A by (simp add: ex_save_ok)
  have c: "calls ?s' =
     [withProgress ''Saving your file ...'',
      sendInfoTelemetry ''WEB_EXTENSION_SAVE_FILE_TRIGGERED'', reAuthenticate,
      httpPatch ''fresh token'' ''https://org/api'' ?u]"
    unfolding C by (simp add: state1_def env1_def patchRequestUrl_def)
  have nd: "\<not> isDirty ?s' (fsPath env1 ?u)"
    unfolding A
    by (simp add: ex_save_ok isDirty_def writeFile_assign_frame clearDirty_def)
       (simp add: env1_def vfs_uri_def state1_def)
  from T ok have B:
    "(\<exists>w. lookupParentDirectory (root ?s') ?u = Inr (entries_set (basename (path ?u)) w dir_pages) \<and>
          child (entries_set (basename (path ?u)) w dir_pages) (basename (path ?u)) = Some w \<and>
          isFile w \<and> data w = [7, 8] \<and> esize w = int (length [7::byte, 8]) \<and>
          mtime w = now env1 (clock ?s' - 1) \<and> clock state1 < clock ?s') \<and>
     bufferedEvents ?s' =
       bufferedEvents state1 @
         (if map_of (entries dir_pages) (basename (path ?u)) = None then [(Created, ?u)] else []) @
         [(Changed, ?u)]"
    unfolding Let_def by blast
  have ck: "clock ?s' = 1"
    unfolding A by (simp add: ex_save_ok writeFile_assign_eq ex_isFile_b clearDirty_def)
      (simp add: state1_def)
  have B1: "\<exists>w. lookupParentDirectory (root ?s') ?u = Inr (entries_set ''b'' w dir_pages) \<and>
        child (entries_set ''b'' w dir_pages) ''b'' = Some w \<and> isFile w \<and>
        data w = [7, 8] \<and> esize w = 2 \<and> mtime w = 1000"
    using B unfolding bn ck by (auto simp: env1_def)
  have B2: "bufferedEvents ?s' = [(Changed, ?u)]"
    using B ex_target_b by (simp add: state1_def)
  from T ex_dirty_b nd
  have D: "patchResponse env1 (patchRequestUrl env1 ?u state1) ?u = None" by blast
  let ?v = "vfs_uri ''/site/web-pages/zz''"
  let ?n = "\<lparr>create = True, overwrite = False\<rparr>"
  let ?t' = "snd (writeFile env1 ?v [9] ?n state1)"
  note N = writeFile_saves_then_writes [OF ex_parent_zz, where env = env1
             and content = "[9]" and options = ?n]
  have cr: "create ?n" by simp
  have bz: "basename (path ?v) = ''zz''" by (simp add: vfs_uri_def ex_more_dirnames)
  note W = writeFile_new [OF ex_parent_zz ex_target_zz cr, where env = env1 and content = "[9]"]
  have ok': "fst (writeFile env1 ?v [9] ?n state1) = Inr ()" unfolding W by simp
  have ck': "clock ?t' = 3" unfolding W by (simp add: state1_def)
  from N ok' have E:
    "(\<exists>w. lookupParentDirectory (root ?t') ?v = Inr (entries_set (basename (path ?v)) w dir_pages) \<and>
          child (entries_set (basename (path ?v)) w dir_pages) (basename (path ?v)) = Some w \<and>
          isFile w \<and> data w = [9] \<and> esize w = int (length [9::byte]) \<and>
          mtime w = now env1 (clock ?t' - 1) \<and> clock state1 < clock ?t') \<and>
     bufferedEvents ?t' =
       bufferedEvents state1 @
         (if map_of (entries dir_pages) (basename (path ?v)) = None then [(Created, ?v)] else []) @
         [(Changed, ?v)]"
    unfolding Let_def by blast
  have E1: "\<exists>w. lookupParentDirectory (root ?t') ?v = Inr (entries_set ''zz'' w dir_pages) \<and>
        child (entries_set ''zz'' w dir_pages) ''zz'' = Some w \<and> isFile w \<and>
        data w = [9] \<and> esize w = 1 \<and> mtime w = 1002"
    using E unfolding bz ck' by (auto simp: env1_def)
  have E2: "bufferedEvents ?t' = [(Created, ?v), (Changed, ?v)]"
    using E ex_target_zz by (simp add: state1_def)
  have first: "map_of (entries dir_pages) (basename (path ?u)) = Some file_b \<and>
     isFile file_b \<and> \<not> (create ?o \<and> \<not> overwrite ?o) \<and> isDirty state1 (fsPath env1 ?u) \<and>
     fst (writeFile env1 ?u [7, 8] ?o state1) = Inr () \<and>
     calls ?s' =
       [withProgress ''Saving your file ...'',
        sendInfoTelemetry ''WEB_EXTENSION_SAVE_FILE_TRIGGERED'', reAuthenticate,
        httpPatch ''fresh token'' ''https://org/api'' ?u] \<and>
     (\<exists>w. lookupParentDirectory (root ?s') ?u = Inr (entries_set ''b'' w dir_pages) \<and>
          child (entries_set ''b'' w dir_pages) ''b'' = Some w \<and> isFile w \<and>
          data w = [7, 8] \<and> esize w = 2 \<and> mtime w = 1000) \<and>
     bufferedEvents ?s' = [(Changed, ?u)] \<and>
     \<not> isDirty ?s' (fsPath env1 ?u) \<and>
     patchResponse env1 (patchRequestUrl env1 ?u state1) ?u = None"
    using ex_target_b ex_isFile_b g ex_dirty_b ok c B1 B2 nd D by blast
  have second: "map_of (entries dir_pages) (basename (path ?v)) = None \<and>
     fst (writeFile env1 ?v [9] ?n state1) = Inr () \<and>
     (\<exists>w. lookupParentDirectory (root ?t') ?v = Inr (entries_set ''zz'' w dir_pages) \<and>
          child (entries_set ''zz'' w dir_pages) ''zz'' = Some w \<and> isFile w \<and>
          data w = [9] \<and> esize w = 1 \<and> mtime w = 1002) \<and>
     bufferedEvents ?t' = [(Created, ?v), (Changed, ?v)]"
    using ex_target_zz ok' E1 E2 by blast
  show ?thesis using first second by (rule conjI)
qed

subsection \<open>Loads\<close>

lemma createDirectory_calls: "calls (snd (createDirectory env u s)) = calls s"
  by (auto simp: createDirectory_def Let_def new_Directory_def Date_now_def mutate_def
        fireSoon_def split: sum.splits option.splits)

lemma createDirectory_loads: "loads (snd (createDirectory env u s)) = loads s"
  by (simp add: loads_def createDirectory_calls)

lemma loads_call: "loads (call c s) = loads s + (if c = authenticateAndUpdateDataverseProperties then 1 else 0)"
  by (simp add: loads_def call_def)

lemma loads_clearDirty: "loads (clearDirty k s) = loads s"
  by (simp add: loads_def clearDirty_def)

lemma saveWithProgress_loads: "loads (snd (saveWithProgress env u s)) = loads s"
  unfolding loads_def saveWithProgress_calls
  by (cases "reAuthenticated env") simp_all

lemma writeFile_loads: "loads (snd (writeFile env u content options s)) = loads s"
proof (cases rule: writeFile_cases[of env u content options s])
  case (fail e) then show ?thesis by simp
next
  case (new p)
  then show ?thesis using writeFile_new[OF new, of env content] by (simp add: loads_def)
next
  case (clean p e)
  then show ?thesis by (simp add: loads_def writeFile_assign_frame)
next
  case (saved p e s1)
  then show ?thesis using saveWithProgress_loads[of env u s]
    by (simp add: loads_def writeFile_assign_frame)
next
  case (save_failed p e err s1)
  then show ?thesis using saveWithProgress_loads[of env u s] by simp
qed

lemma createDirectories_loads: "loads (snd (createDirectories env ds s)) = loads s"
proof (induction ds arbitrary: s)
  case Nil show ?case by simp
next
  case (Cons d ds)
  obtain r s1 where c: "createDirectory env d s = (r, s1)" by (cases "createDirectory env d s")
  have l: "loads s1 = loads s" using createDirectory_loads[of env d s] c by simp
  show ?case using Cons[of s1] c l by (cases r) simp_all
qed

lemma createContentFiles_loads: "loads (snd (createContentFiles env entity r s)) = loads s"
proof -
  obtain r1 s1 where a: "createDirectories env (fetched_folders r) s = (r1, s1)"
    by (cases "createDirectories env (fetched_folders r) s")
  have l1: "loads s1 = loads s" using createDirectories_loads[of env "fetched_folders r" s] a by simp
  obtain r2 s2 where b: "writeFile env (fetched_uri r) (fetched_content r)
        \<lparr>create = True, overwrite = True\<rparr> (call (sendInfoTelemetry ''per-record write'') s1) = (r2, s2)"
    by (cases "writeFile env (fetched_uri r) (fetched_content r)
        \<lparr>create = True, overwrite = True\<rparr> (call (sendInfoTelemetry ''per-record write'') s1)")
  have l2: "loads s2 = loads s1"
    using writeFile_loads[of env "fetched_uri r" "fetched_content r" "\<lparr>create = True, overwrite = True\<rparr>"
        "call (sendInfoTelemetry ''per-record write'') s1"] b
    by (simp add: loads_call)
  show ?thesis using a b l1 l2
    by (cases r1; cases r2) (simp_all add: createContentFiles_def loads_def)
qed

lemma createAllContentFiles_loads: "loads (snd (createAllContentFiles env entity rs s)) = loads s"
proof (induction rs arbitrary: s)
  case Nil show ?case by simp
next
  case (Cons r rs)
  obtain x s1 where c: "createContentFiles env entity r s = (x, s1)"
    by (cases "createContentFiles env entity r s")
  have l: "loads s1 = loads s" using createContentFiles_loads[of env entity r s] c by simp
  show ?case using Cons[of s1] c l by (cases x) simp_all
qed

lemma fetchEntity_loads: "loads (fetchEntity env entity s) = loads s"
proof (cases "schemaError env entity")
  case (Some msg)
  then show ?thesis by (simp add: fetchEntity_def loads_call errorDialog_def)
next
  case None
  show ?thesis
  proof (cases "getResponse env entity")
    case (NotOk st)
    then show ?thesis using None by (simp add: fetchEntity_def Let_def loads_call errorDialog_def)
  next
    case NullPayload
    then show ?thesis using None by (simp add: fetchEntity_def Let_def loads_call errorDialog_def)
  next
    case (Records rs)
    let ?url = "getRequestURL env (map_of (urlParametersMap s) ''ORG_URL'') (Some entity) None ''GET'' False"
    let ?s1 = "call (sendAPISuccessTelemetry ?url entity)
                 (call (httpGet (dataverseAccessToken s) ?url) (call (sendAPITelemetry ?url entity) s))"
    obtain x s2 where c: "createAllContentFiles env entity rs ?s1 = (x, s2)"
      by (cases "createAllContentFiles env entity rs ?s1")
    have "loads s2 = loads ?s1" using createAllContentFiles_loads[of env entity rs ?s1] c by simp
    then have "loads s2 = loads s" by (simp add: loads_call)
    then show ?thesis using None Records c
      by (cases x) (simp_all add: fetchEntity_def Let_def loads_call errorDialog_def)
  qed
qed

lemma fetchEntities_loads: "loads (fetchEntities env es s) = loads s"
  by (induction es arbitrary: s) (simp_all add: fetchEntity_loads)

lemma fetchData_loads: "loads (snd (fetchDataFromDataverseAndUpdateVFS env s)) = loads s"
  by (simp add: fetchDataFromDataverseAndUpdateVFS_def fetchEntities_loads loads_call)

lemma createEntityFolder_loads: "loads (snd (createEntityFolder env nm s)) = loads s"
  by (simp add: createEntityFolder_def Let_def createDirectory_loads loads_call)

lemma createFileSystem_loads: "loads (snd (createFileSystem env nm s)) = loads s"
proof (cases nm)
  case None then show ?thesis by (simp add: createFileSystem_def)
next
  case (Some n)
  let ?s0 = "call (sendInfoTelemetry ''WEB_EXTENSION_CREATE_ROOT_FOLDER'') s"
  let ?u = "parse env (PORTALS_URI_SCHEME @ '':/'' @ n @ ''/'')"
  obtain x s1 where c: "createDirectory env ?u ?s0 = (x, s1)" by (cases "createDirectory env ?u ?s0")
  have "loads s1 = loads ?s0" using createDirectory_loads[of env ?u ?s0] c by simp
  then have l: "loads s1 = loads s" by (simp add: loads_call)
  show ?thesis using Some c l
    by (cases x) (simp_all add: createFileSystem_def loads_call createEntityFolder_loads)
qed

lemma loadFromDataverseToVFS_loads:
  "loads (snd (loadFromDataverseToVFS env s)) = loads s + 1"
proof (cases "authenticated env")
  case (Inl e)
  then show ?thesis by (simp add: loadFromDataverseToVFS_def authenticate_context_def loads_call)
next
  case (Inr token)
  let ?s1 = "(call authenticateAndUpdateDataverseProperties s)\<lparr>dataverseAccessToken := token\<rparr>"
  have l1: "loads ?s1 = loads s + 1" by (simp add: loads_def call_def)
  obtain x s2 where c: "createFileSystem env (map_of (urlParametersMap ?s1) ''WEBSITE_NAME'') ?s1 = (x, s2)"
    by (cases "createFileSystem env (map_of (urlParametersMap ?s1) ''WEBSITE_NAME'') ?s1")
  have l2: "loads s2 = loads ?s1"
    using createFileSystem_loads[of env "map_of (urlParametersMap ?s1) ''WEBSITE_NAME''" ?s1] c by simp
  show ?thesis using Inr c l1 l2
    by (cases x) (simp_all add: loadFromDataverseToVFS_def authenticate_context_def fetchData_loads)
qed

subsection \<open>\<^verbatim>\<open>readFile\<close> and \<^verbatim>\<open>readDirectory\<close>\<close>

lemma ex_paths:
  "dirname ''/site/'' = ''/''" "basename ''/site/'' = ''site''"
  "dirname ''/site/web-pages/'' = ''/site''" "basename ''/site/web-pages/'' = ''web-pages''"
  "dirname ''/site/web-pages/x'' = ''/site/web-pages''" "basename ''/site/web-pages/x'' = ''x''"
  by (simp_all add: dirname_def basename_def strip_slashes_def)

lemmas eval_defs = loadFromDataverseToVFS_def authenticate_context_def createFileSystem_def
  createEntityFolder_def fetchDataFromDataverseAndUpdateVFS_def
  createDirectory_def Let_def new_Directory_def Date_now_def mutate_def
  fireSoon_def uri_with_path_def vfs_uri_def lookup_def lookupAsDirectory_def
  child_def PORTALS_URI_SCHEME_def ex_paths call_def SubFolders_def SingleFolder_def





text \<open>
  \<^verbatim>\<open>readDirectory\<close> lists the children of a directory in the order of its map. After a miss
  on the root directory it runs one load and returns the empty list, or the error of the
  load.
\<close>

lemma readDirectory_lists_children:
  "lookupAsDirectory (root s) u False = Inr d \<Longrightarrow>
   readDirectory env u s = (Inr (map (\<lambda>(n, c). (n, etype c)) (entries d)), s)"
  by (simp add: readDirectory_def)

lemma readDirectory_after_load:
  assumes "lookupAsDirectory (root s) u False = Inl FileNotFound"
      and "isContextSet s"
      and "toLowerCase env (toString env u) = toLowerCase env (toString env (rootDirectory s))"
  shows "readDirectory env u s =
           (case loadFromDataverseToVFS env
                   (call (sendInfoTelemetry ''WEB_EXTENSION_FETCH_DIRECTORY_TRIGGERED'') s) of
              (Inl e, s1) \<Rightarrow> (Inl e, s1)
            | (Inr x, s1) \<Rightarrow> (Inr [], s1))"
    and "loads (snd (readDirectory env u s)) = loads s + 1"
proof -
  show eq: "readDirectory env u s =
           (case loadFromDataverseToVFS env
                   (call (sendInfoTelemetry ''WEB_EXTENSION_FETCH_DIRECTORY_TRIGGERED'') s) of
              (Inl e, s1) \<Rightarrow> (Inl e, s1)
            | (Inr x, s1) \<Rightarrow> (Inr [], s1))"
    using assms by (simp add: readDirectory_def)
  have "snd (readDirectory env u s) =
        snd (loadFromDataverseToVFS env
               (call (sendInfoTelemetry ''WEB_EXTENSION_FETCH_DIRECTORY_TRIGGERED'') s))"
    unfolding eq by (auto split: prod.splits sum.splits)
  then show "loads (snd (readDirectory env u s)) = loads s + 1"
    by (simp add: loadFromDataverseToVFS_loads loads_call)
qed

text \<open>
  Claim C5 at a failing input: the provider as constructed, with the context set and the
  root directory \<^verbatim>\<open>/site\<close>. \<^verbatim>\<open>readDirectory\<close> of the root directory misses, runs one load,
  which creates the site folder and the entity folder, and returns the empty list that the
  \<^verbatim>\<open>try\<close> block left: it does not resolve the directory again. A second call on the state
  it leaves lists the child.
\<close>

theorem readDirectory_load_returns_empty:
  "lookupAsDirectory (root state0) (vfs_uri ''/site'') False = Inl FileNotFound \<and>
   isContextSet state0 \<and>
   toLowerCase env1 (toString env1 (vfs_uri ''/site'')) =
     toLowerCase env1 (toString env1 (rootDirectory state0)) \<and>
   fst (readDirectory env1 (vfs_uri ''/site'') state0) = Inr [] \<and>
   loads (snd (readDirectory env1 (vfs_uri ''/site'') state0)) = 1 \<and>
   fst (readDirectory env1 (vfs_uri ''/site'')
          (snd (readDirectory env1 (vfs_uri ''/site'') state0))) =
     Inr [(''web-pages'', FileType_Directory)]"
  by (simp add: readDirectory_def eval_defs loads_def state0_def env1_def)


lemmas eval_write_defs = writeFile_def writeFile_entry_def new_File_def writeFile_assign_def
  lookupParentDirectory_def isDirty_def createContentFiles_def fetchEntity_def
  lookupAsFile_def



subsection \<open>The fetch pass\<close>

lemma fetchEntities_append:
  "fetchEntities env (pre @ post) s = fetchEntities env post (fetchEntities env pre s)"
  by (induction pre arbitrary: s) simp_all

text \<open>
  Claim C6, on the fetch pass modelled from the spec. The call resolves whatever the
  responses are. The pass over a list of entity types is the pass over the types after a
  given one, started where that one ended: a failing entity type does not abort the others.
  For an entity type with a complete schema entry whose request is answered with a null
  payload, the pass issues the request, shows one error dialog titled
  \<^verbatim>\<open>"There was a problem opening the workspace"\<close> and records one failure telemetry
  event; when the answer is not ok it also shows the notification
  \<^verbatim>\<open>"Failed to fetch file content."\<close> and records a second failure telemetry event. In both
  cases nothing else in the state changes.
\<close>

theorem fetch_partial_failure:
  "fst (fetchDataFromDataverseAndUpdateVFS env s) = Inr () \<and>
   fetchEntities env (pre @ entity # post) s =
     fetchEntities env post (fetchEntity env entity (fetchEntities env pre s)) \<and>
   (schemaError env entity = None \<and> getResponse env entity = NullPayload \<longrightarrow>
      (let requestUrl = getRequestURL env (map_of (urlParametersMap s) ''ORG_URL'')
                          (Some entity) None ''GET'' False
       in fetchEntity env entity s =
            s\<lparr>calls := calls s @
                [sendAPITelemetry requestUrl entity,
                 httpGet (dataverseAccessToken s) requestUrl,
                 showErrorDialog ''There was a problem opening the workspace''
                   ''We encountered an error preparing the file for edit.'',
                 sendAPIFailureTelemetry requestUrl entity]\<rparr>)) \<and>
   (\<forall>statusText. schemaError env entity = None \<and> getResponse env entity = NotOk statusText \<longrightarrow>
      (let requestUrl = getRequestURL env (map_of (urlParametersMap s) ''ORG_URL'')
                          (Some entity) None ''GET'' False
       in fetchEntity env entity s =
            s\<lparr>calls := calls s @
                [sendAPITelemetry requestUrl entity,
                 httpGet (dataverseAccessToken s) requestUrl,
                 showErrorDialog ''There was a problem opening the workspace''
                   ''We encountered an error preparing the file for edit.'',
                 sendAPIFailureTelemetry requestUrl entity,
                 showErrorMessage ''Failed to fetch file content.'',
                 sendAPIFailureTelemetry requestUrl entity]\<rparr>))"
  by (simp add: fetchDataFromDataverseAndUpdateVFS_def fetchEntities_append fetchEntity_def
        Let_def call_def errorDialog_def)


lemma ex_fetch3:
  "fst (readFile env3 (vfs_uri ''/site/web-pages/x'')
          (snd (fetchDataFromDataverseAndUpdateVFS env3 state1))) = Inr [1, 2] \<and>
   filter (\<lambda>c. c = errorDialog) (calls (snd (fetchDataFromDataverseAndUpdateVFS env3 state1)))
     = [errorDialog, errorDialog]"
  by (simp add: readFile_def eval_defs eval_write_defs state1_def root1_def dir_site_def
        dir_pages_def file_b_def env3_def env2_def env1_def errorDialog_def)

theorem fetch_partial_failure_witness:
  "schemaError env3 ''contentsnippet'' = None \<and>
   getResponse env3 ''contentsnippet'' = NotOk ''Bad Gateway'' \<and>
   fetchEntity env3 ''contentsnippet'' state1 =
     state1\<lparr>calls := calls state1 @
       [sendAPITelemetry ''https://org/api'' ''contentsnippet'',
        httpGet (dataverseAccessToken state1) ''https://org/api'',
        showErrorDialog ''There was a problem opening the workspace''
          ''We encountered an error preparing the file for edit.'',
        sendAPIFailureTelemetry ''https://org/api'' ''contentsnippet'',
        showErrorMessage ''Failed to fetch file content.'',
        sendAPIFailureTelemetry ''https://org/api'' ''contentsnippet'']\<rparr> \<and>
   schemaError env3 ''webfiles'' = None \<and>
   getResponse env3 ''webfiles'' = NullPayload \<and>
   fetchEntity env3 ''webfiles'' state1 =
     state1\<lparr>calls := calls state1 @
       [sendAPITelemetry ''https://org/api'' ''webfiles'',
        httpGet (dataverseAccessToken state1) ''https://org/api'',
        showErrorDialog ''There was a problem opening the workspace''
          ''We encountered an error preparing the file for edit.'',
        sendAPIFailureTelemetry ''https://org/api'' ''webfiles'']\<rparr> \<and>
   fetchEntities env3 ([''contentsnippet''] @ ''webfiles'' # [''webpages'']) state1 =
     fetchEntities env3 [''webpages'']
       (fetchEntity env3 ''webfiles'' (fetchEntities env3 [''contentsnippet''] state1)) \<and>
   fst (fetchDataFromDataverseAndUpdateVFS env3 state1) = Inr () \<and>
   fst (readFile env3 (vfs_uri ''/site/web-pages/x'')
          (snd (fetchDataFromDataverseAndUpdateVFS env3 state1))) = Inr [1, 2] \<and>
   filter (\<lambda>c. c = errorDialog) (calls (snd (fetchDataFromDataverseAndUpdateVFS env3 state1)))
     = [errorDialog, errorDialog]"
proof -
  have h: "schemaError env3 ''contentsnippet'' = None"
    "getResponse env3 ''contentsnippet'' = NotOk ''Bad Gateway''"
    "schemaError env3 ''webfiles'' = None"
    "getResponse env3 ''webfiles'' = NullPayload"
    by (simp_all add: env3_def env2_def env1_def)
  have u: "getRequestURL env3 (map_of (urlParametersMap state1) ''ORG_URL'')
             (Some ''contentsnippet'') None ''GET'' False = ''https://org/api''"
    "getRequestURL env3 (map_of (urlParametersMap state1) ''ORG_URL'')
             (Some ''webfiles'') None ''GET'' False = ''https://org/api''"
    by (simp_all add: env3_def env2_def env1_def)
  show ?thesis
    using h ex_fetch3
      fetch_partial_failure [of env3 state1 "[''contentsnippet'']" "''webfiles''" "[''webpages'']",
        unfolded Let_def u]
      fetch_partial_failure [of env3 state1 "[]" "''contentsnippet''" "[]", unfolded Let_def u]
    by blast
qed

end
